theory Spec2Isabelle
  imports Main "HOL-Library.Sublist"
begin

section \<open>Strings of the host language\<close>

text \<open>
  A JavaScript string is a sequence of UTF-16 code units. The model uses \<open>string\<close>;
  one \<open>char\<close> stands for one code unit below 256, which covers every literal of the
  source. \<open>trim\<close> is \<^verbatim>\<open>String.prototype.trim\<close>: it removes the white space and line
  terminators at both ends. Below 256 these are TAB, LF, VT, FF, CR, SPACE and NBSP.
\<close>

definition isWhiteSpace :: "char \<Rightarrow> bool" where
  "isWhiteSpace c =
     (c = CHR 0x09 \<or> c = CHR 0x0A \<or> c = CHR 0x0B \<or> c = CHR 0x0C \<or> c = CHR 0x0D
      \<or> c = CHR 0x20 \<or> c = CHR 0xA0)"

definition trim :: "string \<Rightarrow> string" where
  "trim s = rev (dropWhile isWhiteSpace (rev (dropWhile isWhiteSpace s)))"

text \<open>The decimal digits of a natural number, as a template literal prints an index.\<close>

fun decimal :: "nat \<Rightarrow> string" where
  "decimal n =
     (if n < 10 then [''0123456789'' ! n]
      else decimal (n div 10) @ [''0123456789'' ! (n mod 10)])"

declare decimal.simps [simp del]

text \<open>
  \<^verbatim>\<open>String(arg)\<close> for \<^verbatim>\<open>arg: string | number\<close>. The numbers are the values of a type
  \<open>'n\<close> that the model leaves open, and the text that the language prints for a number
  is a parameter, \<open>numberToString\<close>: nothing is assumed about either.
\<close>

datatype 'n arg = Str string | Num 'n

fun String :: "('n \<Rightarrow> string) \<Rightarrow> 'n arg \<Rightarrow> string" where
  "String numberToString (Str s) = s"
| "String numberToString (Num n) = numberToString n"

text \<open>
  \<^verbatim>\<open>s.indexOf(p)\<close>: the position of the first occurrence of \<open>p\<close> in \<open>s\<close>, if any.
\<close>

fun indexOf :: "string \<Rightarrow> string \<Rightarrow> nat option" where
  "indexOf [] p = (if p = [] then Some 0 else None)"
| "indexOf (c # r) p =
     (if take (length p) (c # r) = p then Some 0 else map_option Suc (indexOf r p))"

text \<open>
  The replacement text of \<^verbatim>\<open>String.prototype.replace\<close> for a string pattern (the
  language's GetSubstitution with no capture groups): \<^verbatim>\<open>$$\<close> is a dollar sign, \<^verbatim>\<open>$&\<close>
  the matched text, \<^verbatim>\<open>$`\<close> the text before the match, \<^verbatim>\<open>$'\<close> the text after it;
  everything else, a dollar sign followed by a digit included, is copied.
\<close>

fun getSubstitution :: "string \<Rightarrow> string \<Rightarrow> string \<Rightarrow> string \<Rightarrow> string" where
  "getSubstitution matched before after [] = []"
| "getSubstitution matched before after [c] = [c]"
| "getSubstitution matched before after (c # d # r) =
     (if c = CHR ''$'' \<and> d = CHR ''$'' then CHR ''$'' # getSubstitution matched before after r
      else if c = CHR ''$'' \<and> d = CHR ''&'' then matched @ getSubstitution matched before after r
      else if c = CHR ''$'' \<and> d = CHR 0x60 then before @ getSubstitution matched before after r
      else if c = CHR ''$'' \<and> d = CHR 0x27 then after @ getSubstitution matched before after r
      else c # getSubstitution matched before after (d # r))"

text \<open>
  \<^verbatim>\<open>s.replace(p, r)\<close> with a string pattern: only the first occurrence is replaced,
  and a string without an occurrence is returned as it is.
\<close>

definition replace :: "string \<Rightarrow> string \<Rightarrow> string \<Rightarrow> string" where
  "replace s p r =
     (case indexOf s p of
        None \<Rightarrow> s
      | Some k \<Rightarrow>
          take k s
          @ getSubstitution p (take k s) (drop (k + length p) s) r
          @ drop (k + length p) s)"

section \<open>Localization lookup\<close>

text \<open>
  \<^verbatim>\<open>
  export function localize(key: string, ...args: (string | number)[]): string {
      let message = bundle[key] || key;
      args.forEach((arg, index) => {
          message = message.replace(`{${index}}`, String(arg));
      });
      return message;
  }
  \<close>
  The bundle is loaded from \<^verbatim>\<open>package.nls.json\<close>, which is not among the sources: it is a
  parameter. It is a plain object built from a table of strings: \<open>nls_bundle\<close> maps the
  keys of the table, the object's own properties, to their texts. \<^verbatim>\<open>bundle[key]\<close> also
  finds the properties that every object inherits, listed in \<open>inherited\<close>; they are
  functions and objects, never strings. So \<^verbatim>\<open>bundle[key] || key\<close> is the own text when there
  is one and it is not empty, the key when the own text is empty, the inherited property
  when the key names one, and the key otherwise.
\<close>

type_synonym nls_bundle = "string \<rightharpoonup> string"

definition inherited :: "string list" where
  "inherited =
     [''constructor'', ''__defineGetter__'', ''__defineSetter__'', ''hasOwnProperty'',
      ''__lookupGetter__'', ''__lookupSetter__'', ''isPrototypeOf'', ''propertyIsEnumerable'',
      ''toString'', ''valueOf'', ''__proto__'', ''toLocaleString'']"

datatype message = Text string | Inherited string

datatype error = TypeError

definition placeholder :: "nat \<Rightarrow> string" where
  "placeholder index = ''{'' @ decimal index @ ''}''"

definition lookup :: "nls_bundle \<Rightarrow> string \<Rightarrow> message" where
  "lookup b key =
     (case b key of
        Some m \<Rightarrow> Text (if m = [] then key else m)
      | None \<Rightarrow> if key \<in> set inherited then Inherited key else Text key)"

text \<open>
  The loop over the arguments. An inherited property has no method \<^verbatim>\<open>replace\<close>, so the
  first argument makes the call throw.
\<close>

fun forEach_replace ::
  "('n \<Rightarrow> string) \<Rightarrow> message \<Rightarrow> nat \<Rightarrow> 'n arg list \<Rightarrow> error + message" where
  "forEach_replace numberToString message index [] = Inr message"
| "forEach_replace numberToString (Text m) index (a # as) =
     forEach_replace numberToString
       (Text (replace m (placeholder index) (String numberToString a))) (Suc index) as"
| "forEach_replace numberToString (Inherited n) index (a # as) = Inl TypeError"

definition localize ::
  "('n \<Rightarrow> string) \<Rightarrow> nls_bundle \<Rightarrow> string \<Rightarrow> 'n arg list \<Rightarrow> error + message" where
  "localize numberToString b key args = forEach_replace numberToString (lookup b key) 0 args"

text \<open>
  Where a pattern stands in a text: \<open>matches_at s p k\<close> says that \<open>p\<close> stands in \<open>s\<close> at
  position \<open>k\<close>, \<open>occurs p s\<close> that it stands somewhere, and \<open>first_at s p k\<close> that \<open>k\<close> is the
  first position where it stands. Three bundles serve as examples.
\<close>

definition matches_at :: "string \<Rightarrow> string \<Rightarrow> nat \<Rightarrow> bool" where
  "matches_at s p k = (k \<le> length s \<and> take (length p) (drop k s) = p)"

definition occurs :: "string \<Rightarrow> string \<Rightarrow> bool" where
  "occurs p s = list_ex (matches_at s p) [0..<Suc (length s)]"

definition first_at :: "string \<Rightarrow> string \<Rightarrow> nat \<Rightarrow> bool" where
  "first_at s p k = (matches_at s p k \<and> \<not> list_ex (matches_at s p) [0..<k])"

definition greeting :: nls_bundle where
  "greeting = [''greet'' \<mapsto> ''Hello {0}, you are {1}'']"

definition twice :: nls_bundle where
  "twice = [''k'' \<mapsto> ''{0}{0}'']"

definition priced :: nls_bundle where
  "priced = [''k'' \<mapsto> ''a{0}b'']"

text \<open>
  The getters of \<^verbatim>\<open>strings\<close> that the modelled code reads. They pass no arguments, so
  no number is ever printed, and their keys are not inherited names, so \<open>localize\<close>
  returns a text for them (lemma \<open>getters_text\<close>), which \<open>text_of\<close> reads.
\<close>

definition no_numbers :: "unit \<Rightarrow> string" where
  "no_numbers n = []"

definition text_of :: "error + message \<Rightarrow> string" where
  "text_of r = (case r of Inr (Text m) \<Rightarrow> m | _ \<Rightarrow> [])"

definition confirmationRequired :: "nls_bundle \<Rightarrow> string" where
  "confirmationRequired b = text_of (localize no_numbers b ''notification.confirmationRequired'' [])"

definition agentRequiresInput :: "nls_bundle \<Rightarrow> string" where
  "agentRequiresInput b = text_of (localize no_numbers b ''notification.agentRequiresInput'' [])"

definition openConsole :: "nls_bundle \<Rightarrow> string" where
  "openConsole b = text_of (localize no_numbers b ''notification.openConsole'' [])"

definition respond :: "nls_bundle \<Rightarrow> string" where
  "respond b = text_of (localize no_numbers b ''button.respond'' [])"

definition inputPlaceholder :: "nls_bundle \<Rightarrow> string" where
  "inputPlaceholder b = text_of (localize no_numbers b ''input.placeholder'' [])"

definition inputRequired :: "nls_bundle \<Rightarrow> string" where
  "inputRequired b = text_of (localize no_numbers b ''badge.inputRequired'' [])"

section \<open>The provider of the Agent Console view\<close>

record UserResponseResult =
  responded :: bool
  response :: string

datatype ToWebviewMessage = ShowQuestion string string | Clear

datatype FromWebviewMessage = Submit string | Cancel

text \<open>
  The host's view object, as far as the provider touches it: the badge (\<open>None\<close> is
  \<^verbatim>\<open>undefined\<close>, otherwise value and tooltip), the messages posted to its webview and
  the calls of \<^verbatim>\<open>show(preserveFocus)\<close>, both in order. Writes and calls are recorded on
  the object whether or not the host has disposed it; what the host does with them then
  is outside the source. The options and the HTML set by \<^verbatim>\<open>resolveWebviewView\<close> play no
  part in the control flow and are left out.
\<close>

record WebviewView =
  badge :: "(nat \<times> string) option"
  posted :: "ToWebviewMessage list"
  shown :: "bool list"

text \<open>
  The provider with the part of the host it acts on. \<open>view\<close> and \<open>pendingRequest\<close> are
  the fields \<^verbatim>\<open>_view\<close> and \<^verbatim>\<open>_pendingRequest\<close>. A promise is a number, given out in order
  of creation; \<open>pendingRequest = Some p\<close> says that the slot holds the resolve function of
  promise \<open>p\<close>. \<open>resolveCalls\<close> lists every call of a resolve function with its argument,
  oldest first; \<open>notifications\<close> the information messages raised (text and action), and
  \<open>commands\<close> the host commands executed.
\<close>

record provider =
  view :: "WebviewView option"
  pendingRequest :: "nat option"
  promiseCount :: nat
  resolveCalls :: "(nat \<times> UserResponseResult) list"
  notifications :: "(string \<times> string) list"
  commands :: "string list"

definition init :: provider where
  "init = \<lparr>view = None, pendingRequest = None, promiseCount = 0, resolveCalls = [],
           notifications = [], commands = []\<rparr>"

text \<open>A promise takes the value of the first call of its resolve function.\<close>

definition outcome :: "provider \<Rightarrow> nat \<Rightarrow> UserResponseResult option" where
  "outcome s p = map_of (resolveCalls s) p"

text \<open>The calls of the resolve function of promise \<open>p\<close> so far.\<close>

definition resolutions :: "provider \<Rightarrow> nat \<Rightarrow> UserResponseResult list" where
  "resolutions s p = map snd (filter (\<lambda>c. fst c = p) (resolveCalls s))"

text \<open>The promises created and not yet resolved.\<close>

definition unresolved :: "provider \<Rightarrow> nat list" where
  "unresolved s = filter (\<lambda>p. outcome s p = None) [0..<promiseCount s]"

text \<open>The badge count the host shows: 0 without a view or without a badge.\<close>

definition badgeState :: "provider \<Rightarrow> nat" where
  "badgeState s =
     (case view s of None \<Rightarrow> 0 | Some v \<Rightarrow> (case badge v of None \<Rightarrow> 0 | Some c \<Rightarrow> fst c))"

definition resolveWebviewView :: "WebviewView \<Rightarrow> provider \<Rightarrow> provider" where
  "resolveWebviewView webviewView s = s\<lparr>view := Some webviewView\<rparr>"

definition showQuestion :: "string \<Rightarrow> string \<Rightarrow> provider \<Rightarrow> provider" where
  "showQuestion question title s =
     s\<lparr>view := map_option (\<lambda>v. v\<lparr>posted := posted v @ [ShowQuestion question title]\<rparr>) (view s)\<rparr>"

definition clear :: "provider \<Rightarrow> provider" where
  "clear s = s\<lparr>view := map_option (\<lambda>v. v\<lparr>posted := posted v @ [Clear]\<rparr>) (view s)\<rparr>"

definition setBadge :: "nls_bundle \<Rightarrow> nat \<Rightarrow> provider \<Rightarrow> provider" where
  "setBadge b count s =
     (case view s of
        None \<Rightarrow> s
      | Some v \<Rightarrow>
          s\<lparr>view := Some (v\<lparr>badge := (if count > 0 then Some (count, inputRequired b) else None)\<rparr>)\<rparr>)"

definition showNotification :: "nls_bundle \<Rightarrow> provider \<Rightarrow> provider" where
  "showNotification b s =
     s\<lparr>notifications := notifications s @ [(agentRequiresInput b, openConsole b)]\<rparr>"

text \<open>The continuation of the notification: what the human selected, if anything.\<close>

definition notificationSelected :: "nls_bundle \<Rightarrow> string option \<Rightarrow> provider \<Rightarrow> provider" where
  "notificationSelected b selection s =
     (if selection = Some (openConsole b)
      then s\<lparr>commands := commands s @ [''seamlessAgentView.focus'']\<rparr> else s)"

definition resolvePendingRequest :: "nls_bundle \<Rightarrow> UserResponseResult \<Rightarrow> provider \<Rightarrow> provider" where
  "resolvePendingRequest b result s =
     (case pendingRequest s of
        None \<Rightarrow> s
      | Some p \<Rightarrow>
          setBadge b 0 (s\<lparr>resolveCalls := resolveCalls s @ [(p, result)], pendingRequest := None\<rparr>))"

fun handleWebviewMessage :: "nls_bundle \<Rightarrow> FromWebviewMessage \<Rightarrow> provider \<Rightarrow> provider" where
  "handleWebviewMessage b (Submit r) s =
     resolvePendingRequest b \<lparr>responded = True, response = r\<rparr> s"
| "handleWebviewMessage b Cancel s =
     resolvePendingRequest b \<lparr>responded = False, response = ''''\<rparr> s"

text \<open>The handler that \<^verbatim>\<open>resolveWebviewView\<close> registers with \<^verbatim>\<open>onDidDispose\<close>.\<close>

definition onDidDispose :: "nls_bundle \<Rightarrow> provider \<Rightarrow> provider" where
  "onDidDispose b s =
     resolvePendingRequest b \<lparr>responded = False, response = ''View was closed''\<rparr> s"

text \<open>
  What the caller of an \<^verbatim>\<open>async\<close> function gets: a promise that is already resolved
  (\<open>Returned\<close>), or one that waits for a later call of its resolve function (\<open>Suspended\<close>).
\<close>

datatype awaited = Returned UserResponseResult | Suspended nat

definition busy :: UserResponseResult where
  "busy = \<lparr>responded = False, response = ''Another request is already pending.''\<rparr>"

definition unavailable :: UserResponseResult where
  "unavailable = \<lparr>responded = False, response = ''Agent Console view is not available.''\<rparr>"

text \<open>\<^verbatim>\<open>title || strings.confirmationRequired\<close>: a missing or empty title is falsy.\<close>

definition title_or_default :: "nls_bundle \<Rightarrow> string option \<Rightarrow> string" where
  "title_or_default b title =
     (case title of
        None \<Rightarrow> confirmationRequired b
      | Some t \<Rightarrow> if t = [] then confirmationRequired b else t)"

definition waitForUserResponse ::
  "nls_bundle \<Rightarrow> string \<Rightarrow> string option \<Rightarrow> provider \<Rightarrow> awaited \<times> provider" where
  "waitForUserResponse b question title s =
     (if pendingRequest s \<noteq> None then (Returned busy, s)
      else if view s = None then (Returned unavailable, s)
      else
        let p = promiseCount s;
            s1 = s\<lparr>promiseCount := Suc p, pendingRequest := Some p\<rparr>;
            s2 = showQuestion question (title_or_default b title) s1;
            s3 = setBadge b 1 s2;
            s4 = s3\<lparr>view := map_option (\<lambda>v. v\<lparr>shown := shown v @ [True]\<rparr>) (view s3)\<rparr>;
            s5 = showNotification b s4
        in (Suspended p, s5))"

text \<open>
  What can happen to a provider: the host resolves a view, a caller asks, a webview of
  a resolved view sends a message, a resolved view is disposed, the human answers the
  notification. \<open>step\<close> runs the provider's code for one event and \<open>run\<close> a whole
  history, oldest event first.
\<close>

datatype event =
    ResolveWebviewView WebviewView
  | WaitForUserResponse string "string option"
  | ReceiveMessage FromWebviewMessage
  | DidDispose
  | NotificationSelected "string option"

fun step :: "nls_bundle \<Rightarrow> provider \<Rightarrow> event \<Rightarrow> provider" where
  "step b s (ResolveWebviewView v) = resolveWebviewView v s"
| "step b s (WaitForUserResponse question title) = snd (waitForUserResponse b question title s)"
| "step b s (ReceiveMessage m) = handleWebviewMessage b m s"
| "step b s DidDispose = onDidDispose b s"
| "step b s (NotificationSelected selection) = notificationSelected b selection s"

definition run :: "nls_bundle \<Rightarrow> provider \<Rightarrow> event list \<Rightarrow> provider" where
  "run b s es = foldl (step b) s es"

text \<open>A view as the host hands it over: no badge, nothing posted, never shown.\<close>

definition fresh :: WebviewView where
  "fresh = \<lparr>badge = None, posted = [], shown = []\<rparr>"

definition closed :: UserResponseResult where
  "closed = \<lparr>responded = False, response = ''View was closed''\<rparr>"

text \<open>
  Histories in which every view is resolved without a badge and while no request is
  pending.
\<close>

fun resolved_while_idle :: "nls_bundle \<Rightarrow> provider \<Rightarrow> event list \<Rightarrow> bool" where
  "resolved_while_idle b s [] = True"
| "resolved_while_idle b s (e # es) =
     ((case e of
         ResolveWebviewView v \<Rightarrow> pendingRequest s = None \<and> badge v = None
       | _ \<Rightarrow> True)
      \<and> resolved_while_idle b (step b s e) es)"

text \<open>Events that hand a view to the provider.\<close>

fun attaches :: "event \<Rightarrow> bool" where
  "attaches (ResolveWebviewView v) = True"
| "attaches _ = False"

text \<open>
  The promises that have been resolved, and the bookkeeping that every history
  maintains: no promise is resolved twice, and the promises created so far are the
  resolved ones and the one in the slot, which needs a view to get there.
\<close>

definition resolved_ids :: "provider \<Rightarrow> nat set" where
  "resolved_ids s = fst ` set (resolveCalls s)"

definition consistent :: "provider \<Rightarrow> bool" where
  "consistent s =
     (distinct (map fst (resolveCalls s))
      \<and> (case pendingRequest s of
            None \<Rightarrow> resolved_ids s = {..<promiseCount s}
          | Some p \<Rightarrow> p < promiseCount s \<and> p \<notin> resolved_ids s
                      \<and> resolved_ids s = {..<promiseCount s} - {p} \<and> view s \<noteq> None))"

text \<open>A view is resolved and a caller asks: the history behind the examples.\<close>

definition asked :: "event list" where
  "asked = [ResolveWebviewView fresh, WaitForUserResponse ''Q'' None]"

text \<open>The badge shows 1 while the slot is occupied and 0 while it is empty.\<close>

definition badge_tracks_slot :: "provider \<Rightarrow> bool" where
  "badge_tracks_slot s = (badgeState s = (if pendingRequest s = None then 0 else 1))"

text \<open>
  A view is resolved and disposed, a caller asks, and the host resolves a new view.
\<close>

definition reattached :: "event list" where
  "reattached =
     [ResolveWebviewView fresh, DidDispose, WaitForUserResponse ''Q'' None,
      ResolveWebviewView fresh]"

section \<open>The fallback prompt and the tool's entry point\<close>

text \<open>
  \<^verbatim>\<open>askViaVSCode\<close> talks to the human through two host dialogs. \<open>selection\<close> is what
  \<^verbatim>\<open>showWarningMessage\<close> resolves to (\<open>None\<close> when the alert is dismissed), \<open>input\<close> what
  \<^verbatim>\<open>showInputBox\<close> resolves to if it is opened (\<open>None\<close> when it is dismissed). The function
  returns the host calls it made, in order, with its result.
\<close>

record dialogs =
  selection :: "string option"
  input :: "string option"

datatype host_call =
    ExecuteCommand string
  | ShowWarningMessage string string
  | ShowInputBox string string string

definition askViaVSCode ::
  "nls_bundle \<Rightarrow> string \<Rightarrow> string \<Rightarrow> dialogs \<Rightarrow> host_call list \<times> UserResponseResult" where
  "askViaVSCode b question title d =
     (let buttonText = respond b;
          alert = [ExecuteCommand ''workbench.action.focusActiveEditorGroup'',
                   ShowWarningMessage (confirmationRequired b @ '': '' @ question) buttonText]
      in if selection d \<noteq> Some buttonText
         then (alert, \<lparr>responded = False, response = ''''\<rparr>)
         else
           (case input d of
              None \<Rightarrow>
                (alert @ [ShowInputBox title question (inputPlaceholder b)],
                 \<lparr>responded = False, response = ''''\<rparr>)
            | Some response' \<Rightarrow>
                (alert @ [ShowInputBox title question (inputPlaceholder b)],
                 \<lparr>responded = (length (trim response') > 0), response = response'\<rparr>)))"

text \<open>
  \<^verbatim>\<open>askViaWebview\<close> awaits the provider. \<open>askViaWebview_resume\<close> is the code after the
  \<^verbatim>\<open>await\<close>, run on the provider's result; \<open>askViaWebview\<close> is the call itself, which
  is \<open>Done\<close> when the provider returned at once and \<open>Waiting\<close> for a promise otherwise.
  The tool's \<^verbatim>\<open>invoke\<close> builds the title, calls \<^verbatim>\<open>askViaWebview\<close> and copies the two fields
  of its result into the JSON text it returns; it is not modelled further.
\<close>

definition askViaWebview_resume ::
  "nls_bundle \<Rightarrow> string \<Rightarrow> string \<Rightarrow> dialogs \<Rightarrow> UserResponseResult
     \<Rightarrow> host_call list \<times> UserResponseResult" where
  "askViaWebview_resume b question title d result =
     (if \<not> responded result \<and> response result = ''Agent Console view is not available.''
      then askViaVSCode b question title d
      else ([], result))"

datatype task = Done "host_call list \<times> UserResponseResult" | Waiting nat

definition askViaWebview ::
  "nls_bundle \<Rightarrow> string \<Rightarrow> string \<Rightarrow> dialogs \<Rightarrow> provider \<Rightarrow> task \<times> provider" where
  "askViaWebview b question title d s =
     (case waitForUserResponse b question (Some title) s of
        (Returned result, s') \<Rightarrow> (Done (askViaWebview_resume b question title d result), s')
      | (Suspended p, s') \<Rightarrow> (Waiting p, s'))"

text \<open>
  The \<^verbatim>\<open>await\<close>. \<open>answer a s\<close> is what the provider's promise holds in state \<open>s\<close>, if it is
  resolved; \<open>completion k s\<close> is what \<open>askViaWebview\<close> has returned to the tool in state
  \<open>s\<close>, if it has returned: at once when it is \<open>Done\<close>, and otherwise as soon as the promise
  it waits for is resolved, by the code after the \<^verbatim>\<open>await\<close> run on the promise's value.
\<close>

fun answer :: "awaited \<Rightarrow> provider \<Rightarrow> UserResponseResult option" where
  "answer (Returned r) s = Some r"
| "answer (Suspended p) s = outcome s p"

fun completion ::
  "nls_bundle \<Rightarrow> string \<Rightarrow> string \<Rightarrow> dialogs \<Rightarrow> task \<Rightarrow> provider
     \<Rightarrow> (host_call list \<times> UserResponseResult) option" where
  "completion b question title d (Done x) s = Some x"
| "completion b question title d (Waiting p) s =
     map_option (askViaWebview_resume b question title d) (outcome s p)"

text \<open>
  For the examples: the tool asks with a title, a human who dismisses the alert, and
  one who presses the button and types the text of the unavailable outcome.
\<close>

definition asked_by_tool :: "event list" where
  "asked_by_tool = [ResolveWebviewView fresh, WaitForUserResponse ''Q'' (Some ''T'')]"

definition nobody :: dialogs where
  "nobody = \<lparr>selection = None, input = None\<rparr>"

definition parrot :: dialogs where
  "parrot = \<lparr>selection = Some ''button.respond'',
             input = Some ''Agent Console view is not available.''\<rparr>"

text \<open>Whether a list of host calls opens the text-entry prompt.\<close>

definition opens_input_box :: "host_call list \<Rightarrow> bool" where
  "opens_input_box calls = list_ex (\<lambda>c. case c of ShowInputBox ti p ph \<Rightarrow> True | _ \<Rightarrow> False) calls"

section \<open>The script of the webview\<close>

text \<open>
  The page as the script sees it: the value of the textarea and whether the form and
  the empty state carry the class \<^verbatim>\<open>hidden\<close> (\<open>None\<close> where the element is missing), and
  the messages posted to the extension host, oldest first.
\<close>

record webview_dom =
  responseInput :: "string option"
  requestForm :: "bool option"
  emptyState :: "bool option"
  postMessage :: "FromWebviewMessage list"

definition clearForm :: "webview_dom \<Rightarrow> webview_dom" where
  "clearForm d =
     d\<lparr>requestForm := map_option (\<lambda>_. True) (requestForm d),
       emptyState := map_option (\<lambda>_. False) (emptyState d),
       responseInput := map_option (\<lambda>_. '''') (responseInput d)\<rparr>"

definition handleSubmit :: "webview_dom \<Rightarrow> webview_dom" where
  "handleSubmit d =
     (let response' =
            (case responseInput d of
               None \<Rightarrow> ''''
             | Some v \<Rightarrow> if trim v = [] then '''' else trim v)
      in clearForm (d\<lparr>postMessage := postMessage d @ [Submit response']\<rparr>))"

definition handleCancel :: "webview_dom \<Rightarrow> webview_dom" where
  "handleCancel d = clearForm (d\<lparr>postMessage := postMessage d @ [Cancel]\<rparr>)"

text \<open>The page with the form on display and \<open>v\<close> typed into the textarea.\<close>

definition form :: "string \<Rightarrow> webview_dom" where
  "form v = \<lparr>responseInput = Some v, requestForm = Some False, emptyState = Some True,
             postMessage = []\<rparr>"

section \<open>Every history keeps the books\<close>

lemma consistent_init: "consistent init"
  by (simp add: consistent_def init_def resolved_ids_def)

lemma setBadge_fields [simp]:
  "pendingRequest (setBadge b c s) = pendingRequest s"
  "promiseCount (setBadge b c s) = promiseCount s"
  "resolveCalls (setBadge b c s) = resolveCalls s"
  "notifications (setBadge b c s) = notifications s"
  "commands (setBadge b c s) = commands s"
  "(view (setBadge b c s) = None) = (view s = None)"
  by (simp_all add: setBadge_def split: option.splits)

lemma consistent_resolvePendingRequest:
  "consistent s \<Longrightarrow> consistent (resolvePendingRequest b r s)"
  by (auto simp: consistent_def resolvePendingRequest_def resolved_ids_def split: option.splits)

lemma consistent_waitForUserResponse:
  "consistent s \<Longrightarrow> consistent (snd (waitForUserResponse b q t s))"
  by (auto simp: consistent_def waitForUserResponse_def resolved_ids_def Let_def
      showQuestion_def showNotification_def split: option.splits)

lemma consistent_step: "consistent s \<Longrightarrow> consistent (step b s e)"
proof (cases e)
  case (ResolveWebviewView v)
  assume "consistent s"
  then show ?thesis using ResolveWebviewView
    by (auto simp: consistent_def resolveWebviewView_def resolved_ids_def split: option.splits)
next
  case (WaitForUserResponse q t)
  assume "consistent s"
  then show ?thesis using WaitForUserResponse by (simp add: consistent_waitForUserResponse)
next
  case (ReceiveMessage m)
  assume "consistent s"
  then show ?thesis using ReceiveMessage
    by (cases m) (simp_all add: consistent_resolvePendingRequest)
next
  case DidDispose
  assume "consistent s"
  then show ?thesis using DidDispose
    by (simp add: onDidDispose_def consistent_resolvePendingRequest)
next
  case (NotificationSelected sel)
  assume "consistent s"
  then show ?thesis using NotificationSelected
    by (auto simp: consistent_def notificationSelected_def resolved_ids_def split: option.splits)
qed

lemma consistent_run: "consistent s \<Longrightarrow> consistent (run b s es)"
  unfolding run_def by (induction es arbitrary: s) (simp_all add: consistent_step)

lemma run_append: "run b s (es @ es') = run b (run b s es) es'"
  by (simp add: run_def)

lemma run_Nil: "run b s [] = s"
  by (simp add: run_def)

lemma run_Cons: "run b s (e # es) = run b (step b s e) es"
  by (simp add: run_def)

lemma consistent_reachable: "consistent (run b init es)"
  by (simp add: consistent_run consistent_init)

lemma resolvePendingRequest_None:
  "pendingRequest s = None \<Longrightarrow> resolvePendingRequest b r s = s"
  by (simp add: resolvePendingRequest_def)

lemma resolvePendingRequest_Some:
  "pendingRequest s = Some p \<Longrightarrow>
     pendingRequest (resolvePendingRequest b r s) = None
     \<and> resolveCalls (resolvePendingRequest b r s) = resolveCalls s @ [(p, r)]
     \<and> promiseCount (resolvePendingRequest b r s) = promiseCount s"
  by (simp add: resolvePendingRequest_def)

lemma outcome_pending:
  "consistent s \<Longrightarrow> pendingRequest s = Some p \<Longrightarrow> outcome s p = None"
  by (auto simp: consistent_def outcome_def resolved_ids_def map_of_eq_None_iff)

lemma outcome_resolvePendingRequest:
  "consistent s \<Longrightarrow> pendingRequest s = Some p \<Longrightarrow>
     outcome (resolvePendingRequest b r s) p = Some r"
  using outcome_pending [of s p]
  by (simp add: outcome_def resolvePendingRequest_Some map_add_def map_of_append split: option.splits)

lemma busy_unchanged:
  "pendingRequest s = Some p \<Longrightarrow> waitForUserResponse b q t s = (Returned busy, s)"
  by (simp add: waitForUserResponse_def)

lemma run_asked:
  "run b init asked =
     \<lparr>view = Some \<lparr>badge = Some (1, inputRequired b),
                    posted = [ShowQuestion ''Q'' (confirmationRequired b)], shown = [True]\<rparr>,
      pendingRequest = Some 0, promiseCount = 1, resolveCalls = [],
      notifications = [(agentRequiresInput b, openConsole b)], commands = []\<rparr>"
  by (simp add: asked_def run_def init_def fresh_def resolveWebviewView_def waitForUserResponse_def
      Let_def showQuestion_def setBadge_def showNotification_def title_or_default_def)

text \<open>
  Claim C2. A call of \<open>waitForUserResponse\<close> that finds the slot occupied returns at
  once with the busy outcome and leaves the whole provider as it was: slot, resolve
  function, badge, view and logs. In every state a history can reach, the promise \<open>p\<close> in
  the slot is still unresolved after that call, and a submit, a cancel or a disposal
  that follows resolves \<open>p\<close> with its own outcome.
\<close>

theorem busy_caller_leaves_broker_untouched:
  "pendingRequest s = Some p \<Longrightarrow>
     waitForUserResponse b q t s = (Returned busy, s)
     \<and> (s = run b init es \<longrightarrow>
          outcome (snd (waitForUserResponse b q t s)) p = None
          \<and> outcome (step b (snd (waitForUserResponse b q t s)) (ReceiveMessage (Submit r))) p
              = Some \<lparr>responded = True, response = r\<rparr>
          \<and> outcome (step b (snd (waitForUserResponse b q t s)) (ReceiveMessage Cancel)) p
              = Some \<lparr>responded = False, response = ''''\<rparr>
          \<and> outcome (step b (snd (waitForUserResponse b q t s)) DidDispose) p = Some closed)"
proof (intro conjI impI)
  assume p: "pendingRequest s = Some p"
  then show w: "waitForUserResponse b q t s = (Returned busy, s)" by (rule busy_unchanged)
  assume r: "s = run b init es"
  then have c: "consistent s" by (simp add: consistent_reachable)
  show "outcome (snd (waitForUserResponse b q t s)) p = None"
    using w c p by (simp add: outcome_pending)
  show "outcome (step b (snd (waitForUserResponse b q t s)) (ReceiveMessage (Submit r))) p
              = Some \<lparr>responded = True, response = r\<rparr>"
    using w c p by (simp add: outcome_resolvePendingRequest)
  show "outcome (step b (snd (waitForUserResponse b q t s)) (ReceiveMessage Cancel)) p
              = Some \<lparr>responded = False, response = ''''\<rparr>"
    using w c p by (simp add: outcome_resolvePendingRequest)
  show "outcome (step b (snd (waitForUserResponse b q t s)) DidDispose) p = Some closed"
    using w c p by (simp add: outcome_resolvePendingRequest onDidDispose_def closed_def)
qed

theorem busy_caller_leaves_broker_untouched_witness:
  "pendingRequest (run Map.empty init asked) = Some 0
   \<and> waitForUserResponse Map.empty ''again'' None (run Map.empty init asked)
       = (Returned busy, run Map.empty init asked)
   \<and> outcome (run Map.empty init asked) 0 = None
   \<and> outcome (run Map.empty init (asked @ [WaitForUserResponse ''again'' None,
         ReceiveMessage (Submit ''hi'')])) 0 = Some \<lparr>responded = True, response = ''hi''\<rparr>"
proof -
  have p: "pendingRequest (run Map.empty init asked) = Some 0" by (simp add: run_asked)
  note t = busy_caller_leaves_broker_untouched [OF p, of Map.empty "''again''" None asked "''hi''"]
  show ?thesis
    using p t [THEN conjunct1] t [THEN conjunct2]
    by (simp add: run_append run_Cons run_Nil)
qed

section \<open>Resolution of a pending request\<close>

lemma resolutions_pending:
  "consistent s \<Longrightarrow> pendingRequest s = Some p \<Longrightarrow> resolutions s p = []"
  by (auto simp: consistent_def resolutions_def resolved_ids_def filter_empty_conv)

lemma resolutions_resolvePendingRequest:
  "pendingRequest s = Some p \<Longrightarrow>
     resolutions (resolvePendingRequest b r s) q = resolutions s q @ (if q = p then [r] else [])"
  by (simp add: resolutions_def resolvePendingRequest_Some)

lemma filter_fst_distinct:
  "distinct (map fst xs) \<Longrightarrow> length (filter (\<lambda>c. fst c = q) xs) \<le> Suc 0"
proof (induction xs)
  case Nil
  then show ?case by simp
next
  case (Cons x xs)
  show ?case
  proof (cases "fst x = q")
    case True
    with Cons.prems have "q \<notin> fst ` set xs" by simp
    then have "filter (\<lambda>c. fst c = q) xs = []"
      unfolding filter_empty_conv by force
    with True show ?thesis by simp
  next
    case False
    with Cons show ?thesis by simp
  qed
qed

lemma resolutions_at_most_one: "consistent s \<Longrightarrow> length (resolutions s q) \<le> 1"
  using filter_fst_distinct [of "resolveCalls s" q]
  by (simp add: consistent_def resolutions_def)

lemma resolveCalls_waitForUserResponse:
  "resolveCalls (snd (waitForUserResponse b q t s)) = resolveCalls s"
  by (simp add: waitForUserResponse_def Let_def showQuestion_def showNotification_def)

lemma resolveCalls_step:
  "resolveCalls (step b s e) = resolveCalls s
   \<or> (\<exists>p r. pendingRequest s = Some p \<and> resolveCalls (step b s e) = resolveCalls s @ [(p, r)])"
proof (cases e)
  case (ReceiveMessage m)
  then show ?thesis
    by (cases m; cases "pendingRequest s")
       (simp_all add: resolvePendingRequest_None resolvePendingRequest_Some)
next
  case DidDispose
  then show ?thesis
    by (cases "pendingRequest s")
       (simp_all add: onDidDispose_def resolvePendingRequest_None resolvePendingRequest_Some)
qed (simp_all add: resolveCalls_waitForUserResponse resolveWebviewView_def notificationSelected_def)

lemma resolutions_step:
  assumes "consistent s" and "resolutions s q = [r]"
  shows "resolutions (step b s e) q = [r]"
proof -
  from resolveCalls_step [of b s e] show ?thesis
  proof
    assume "resolveCalls (step b s e) = resolveCalls s"
    with assms show ?thesis by (simp add: resolutions_def)
  next
    assume "\<exists>p r. pendingRequest s = Some p \<and> resolveCalls (step b s e) = resolveCalls s @ [(p, r)]"
    then obtain p r' where p: "pendingRequest s = Some p"
      and c: "resolveCalls (step b s e) = resolveCalls s @ [(p, r')]" by blast
    from assms p have "q \<noteq> p" using resolutions_pending [of s p] by auto
    with c assms show ?thesis by (simp add: resolutions_def)
  qed
qed

lemma resolutions_run:
  "consistent s \<Longrightarrow> resolutions s q = [r] \<Longrightarrow> resolutions (run b s es) q = [r]"
proof (induction es arbitrary: s)
  case Nil
  then show ?case by (simp add: run_Nil)
next
  case (Cons e es)
  then show ?case by (simp add: run_Cons consistent_step resolutions_step)
qed

lemma map_of_hd_filter:
  "map_of xs q = (case filter (\<lambda>c. fst c = q) xs of [] \<Rightarrow> None | c # _ \<Rightarrow> Some (snd c))"
  by (induction xs) auto

lemma outcome_of_resolutions:
  "outcome s q = (case resolutions s q of [] \<Rightarrow> None | r # _ \<Rightarrow> Some r)"
  by (simp add: outcome_def resolutions_def map_of_hd_filter split: list.splits)

lemma waitForUserResponse_Suspended:
  "waitForUserResponse b q t s = (Suspended p, s') \<Longrightarrow>
     pendingRequest s = None \<and> view s \<noteq> None \<and> p = promiseCount s
     \<and> pendingRequest s' = Some p"
  by (auto simp: waitForUserResponse_def Let_def showQuestion_def showNotification_def
      split: if_splits)

text \<open>
  Claim C4. In every state \<open>s\<close> that a history reaches: if the slot holds promise \<open>p\<close>, then
  \<open>p\<close> has not been resolved, and the disposal of the view empties the slot and resolves
  \<open>p\<close> with \<open>closed\<close>; whatever events \<open>es'\<close> follow, that stays the only call of its resolve
  function and the value of the promise. With an empty slot a submit, a cancel and a
  disposal leave the provider exactly as it is. No promise is ever resolved twice, and
  a promise resolved with \<open>r\<close> keeps \<open>r\<close> as its only resolution through every continuation.
\<close>

theorem resolution_happens_once:
  "s = run b init es \<Longrightarrow>
     (pendingRequest s = Some p \<longrightarrow>
        resolutions s p = []
        \<and> pendingRequest (step b s DidDispose) = None
        \<and> resolutions (step b s DidDispose) p = [closed]
        \<and> resolutions (run b (step b s DidDispose) es') p = [closed]
        \<and> outcome (run b (step b s DidDispose) es') p = Some closed)
     \<and> (pendingRequest s = None \<longrightarrow>
          step b s (ReceiveMessage m) = s \<and> step b s DidDispose = s)
     \<and> length (resolutions s q) \<le> 1
     \<and> (resolutions s q = [r] \<longrightarrow>
          resolutions (run b s es') q = [r] \<and> outcome (run b s es') q = Some r)"
proof -
  assume "s = run b init es"
  then have c: "consistent s" by (simp add: consistent_reachable)
  have one: "pendingRequest s = Some p \<longrightarrow>
        resolutions s p = []
        \<and> pendingRequest (step b s DidDispose) = None
        \<and> resolutions (step b s DidDispose) p = [closed]
        \<and> resolutions (run b (step b s DidDispose) es') p = [closed]
        \<and> outcome (run b (step b s DidDispose) es') p = Some closed"
  proof
    assume p: "pendingRequest s = Some p"
    have e: "resolutions s p = []" using c p by (rule resolutions_pending)
    have d: "resolutions (step b s DidDispose) p = [closed]"
      using p e by (simp add: onDidDispose_def resolutions_resolvePendingRequest closed_def)
    have c': "consistent (step b s DidDispose)" using c by (rule consistent_step)
    have l: "resolutions (run b (step b s DidDispose) es') p = [closed]"
      using c' d by (rule resolutions_run)
    have n: "pendingRequest (step b s DidDispose) = None"
      using p by (simp add: onDidDispose_def resolvePendingRequest_Some)
    show "resolutions s p = []
        \<and> pendingRequest (step b s DidDispose) = None
        \<and> resolutions (step b s DidDispose) p = [closed]
        \<and> resolutions (run b (step b s DidDispose) es') p = [closed]
        \<and> outcome (run b (step b s DidDispose) es') p = Some closed"
      using e n d l by (simp add: outcome_of_resolutions)
  qed
  have two: "pendingRequest s = None \<longrightarrow>
          step b s (ReceiveMessage m) = s \<and> step b s DidDispose = s"
    by (cases m) (simp_all add: onDidDispose_def resolvePendingRequest_None)
  have three: "length (resolutions s q) \<le> 1" using c by (rule resolutions_at_most_one)
  have four: "resolutions s q = [r] \<longrightarrow>
          resolutions (run b s es') q = [r] \<and> outcome (run b s es') q = Some r"
    using c by (simp add: resolutions_run outcome_of_resolutions)
  from one two three four show ?thesis by blast
qed

theorem resolution_happens_once_witness:
  "pendingRequest (run Map.empty init asked) = Some 0
   \<and> resolutions (run Map.empty init (asked @ [DidDispose])) 0 = [closed]
   \<and> resolutions (run Map.empty init
        (asked @ [DidDispose, DidDispose, ReceiveMessage (Submit ''late''), ReceiveMessage Cancel])) 0
       = [closed]
   \<and> outcome (run Map.empty init
        (asked @ [DidDispose, DidDispose, ReceiveMessage (Submit ''late''), ReceiveMessage Cancel])) 0
       = Some closed"
proof -
  have p: "pendingRequest (run Map.empty init asked) = Some 0" by (simp add: run_asked)
  note t = resolution_happens_once [OF refl, of Map.empty asked 0
      "[DidDispose, ReceiveMessage (Submit ''late''), ReceiveMessage Cancel]"]
  from t [THEN conjunct1] p show ?thesis
    by (simp add: run_append run_Cons run_Nil)
qed

text \<open>
  Claim C6. A caller was suspended on promise \<open>p\<close> by a call of \<open>waitForUserResponse\<close> in a
  reachable state, and after further events \<open>es'\<close> the slot still holds \<open>p\<close>. Then \<open>p\<close> is
  unresolved, a submit message with payload \<open>r\<close> resolves it with responded true and the
  payload \<open>r\<close> as it came, and a cancel message resolves it with responded false and the
  empty response; each is the only resolution of \<open>p\<close>.
\<close>

theorem submit_and_cancel_resolve_the_caller:
  "waitForUserResponse b q t (run b init es) = (Suspended p, s) \<Longrightarrow>
   pendingRequest (run b s es') = Some p \<Longrightarrow>
     pendingRequest s = Some p
     \<and> outcome (run b s es') p = None
     \<and> outcome (step b (run b s es') (ReceiveMessage (Submit r))) p
         = Some \<lparr>responded = True, response = r\<rparr>
     \<and> resolutions (step b (run b s es') (ReceiveMessage (Submit r))) p
         = [\<lparr>responded = True, response = r\<rparr>]
     \<and> outcome (step b (run b s es') (ReceiveMessage Cancel)) p
         = Some \<lparr>responded = False, response = ''''\<rparr>
     \<and> resolutions (step b (run b s es') (ReceiveMessage Cancel)) p
         = [\<lparr>responded = False, response = ''''\<rparr>]"
proof -
  assume w: "waitForUserResponse b q t (run b init es) = (Suspended p, s)"
  assume p: "pendingRequest (run b s es') = Some p"
  have "consistent (snd (waitForUserResponse b q t (run b init es)))"
    by (simp add: consistent_waitForUserResponse consistent_reachable)
  with w have "consistent s" by simp
  then have c: "consistent (run b s es')" by (rule consistent_run)
  have e: "resolutions (run b s es') p = []" using c p by (rule resolutions_pending)
  from w have "pendingRequest s = Some p" by (simp add: waitForUserResponse_Suspended)
  then show ?thesis
    using c p e
    by (simp add: outcome_pending outcome_resolvePendingRequest resolutions_resolvePendingRequest)
qed

theorem submit_and_cancel_resolve_the_caller_witness:
  "waitForUserResponse Map.empty ''Q'' None (run Map.empty init [ResolveWebviewView fresh])
     = (Suspended 0, run Map.empty init asked)
   \<and> outcome (run Map.empty init (asked @ [ReceiveMessage (Submit ''hi'')])) 0
       = Some \<lparr>responded = True, response = ''hi''\<rparr>
   \<and> outcome (run Map.empty init (asked @ [ReceiveMessage Cancel])) 0
       = Some \<lparr>responded = False, response = ''''\<rparr>"
proof -
  have w: "waitForUserResponse Map.empty ''Q'' None (run Map.empty init [ResolveWebviewView fresh])
     = (Suspended 0, run Map.empty init asked)"
    by (simp add: asked_def run_def init_def fresh_def resolveWebviewView_def
        waitForUserResponse_def Let_def showQuestion_def setBadge_def showNotification_def
        title_or_default_def)
  have p: "pendingRequest (run Map.empty (run Map.empty init asked) []) = Some 0"
    by (simp add: run_Nil run_asked)
  from submit_and_cancel_resolve_the_caller [OF w p, of "''hi''"] w show ?thesis
    by (simp add: run_append run_Cons run_Nil)
qed

section \<open>The slot and the badge\<close>

lemma filter_eq_upt: "p < n \<Longrightarrow> filter (\<lambda>x. x = p) [0..<n] = [p]"
proof (induction n)
  case 0
  then show ?case by simp
next
  case (Suc n)
  show ?case
  proof (cases "p = n")
    case True
    have "filter (\<lambda>x. x = n) [0..<n] = []"
      unfolding filter_empty_conv by auto
    with True show ?thesis by simp
  next
    case False
    with Suc show ?thesis by simp
  qed
qed

lemma outcome_None_iff: "outcome s p = None \<longleftrightarrow> p \<notin> resolved_ids s"
  by (simp add: outcome_def resolved_ids_def map_of_eq_None_iff)

lemma unresolved_consistent:
  assumes "consistent s"
  shows "unresolved s = (case pendingRequest s of None \<Rightarrow> [] | Some p \<Rightarrow> [p])"
proof (cases "pendingRequest s")
  case None
  with assms have "resolved_ids s = {..<promiseCount s}" by (simp add: consistent_def)
  then have "filter (\<lambda>p. outcome s p = None) [0..<promiseCount s] = []"
    unfolding filter_empty_conv by (simp add: outcome_None_iff)
  with None show ?thesis by (simp add: unresolved_def)
next
  case (Some p)
  with assms have r: "resolved_ids s = {..<promiseCount s} - {p}" and l: "p < promiseCount s"
    by (simp_all add: consistent_def)
  have "filter (\<lambda>x. outcome s x = None) [0..<promiseCount s]
        = filter (\<lambda>x. x = p) [0..<promiseCount s]"
    by (rule filter_cong) (auto simp: outcome_None_iff r)
  with l Some show ?thesis by (simp add: unresolved_def filter_eq_upt)
qed

lemma badgeState_setBadge:
  "view s \<noteq> None \<Longrightarrow> badgeState (setBadge b c s) = c"
  by (auto simp: badgeState_def setBadge_def split: option.splits)

lemma badgeState_setBadge_0: "badgeState (setBadge b 0 s) = 0"
  by (auto simp: badgeState_def setBadge_def split: option.splits)

lemma badgeState_resolvePendingRequest:
  "pendingRequest s = Some p \<Longrightarrow> badgeState (resolvePendingRequest b r s) = 0"
  by (simp add: resolvePendingRequest_def badgeState_setBadge_0)

lemma view_resolvePendingRequest:
  "(view (resolvePendingRequest b r s) = None) = (view s = None)"
  by (simp add: resolvePendingRequest_def split: option.splits)

lemma waitForUserResponse_accepts:
  "pendingRequest s = None \<Longrightarrow> view s \<noteq> None \<Longrightarrow>
     fst (waitForUserResponse b q t s) = Suspended (promiseCount s)
     \<and> pendingRequest (snd (waitForUserResponse b q t s)) = Some (promiseCount s)
     \<and> badgeState (snd (waitForUserResponse b q t s)) = 1"
  by (auto simp: waitForUserResponse_def Let_def showQuestion_def showNotification_def
      setBadge_def badgeState_def)

lemma badge_tracks_slot_waitForUserResponse:
  "badge_tracks_slot s \<Longrightarrow> badge_tracks_slot (snd (waitForUserResponse b q t s))"
proof (cases "pendingRequest s = None \<and> view s \<noteq> None")
  case True
  assume "badge_tracks_slot s"
  from True show ?thesis
    using waitForUserResponse_accepts [of s b q t] by (simp add: badge_tracks_slot_def)
next
  case False
  assume "badge_tracks_slot s"
  with False show ?thesis by (auto simp: waitForUserResponse_def)
qed

lemma badge_tracks_slot_resolvePendingRequest:
  "badge_tracks_slot s \<Longrightarrow> badge_tracks_slot (resolvePendingRequest b r s)"
proof (cases "pendingRequest s")
  case None
  assume "badge_tracks_slot s"
  with None show ?thesis by (simp add: resolvePendingRequest_None)
next
  case (Some p)
  then show ?thesis
    by (simp add: badge_tracks_slot_def badgeState_resolvePendingRequest resolvePendingRequest_Some)
qed

lemma badge_tracks_slot_step:
  assumes "badge_tracks_slot s"
    and "case e of ResolveWebviewView v \<Rightarrow> pendingRequest s = None \<and> badge v = None | _ \<Rightarrow> True"
  shows "badge_tracks_slot (step b s e)"
proof (cases e)
  case (ResolveWebviewView v)
  with assms show ?thesis
    by (simp add: badge_tracks_slot_def resolveWebviewView_def badgeState_def)
next
  case (WaitForUserResponse q t)
  with assms show ?thesis by (simp add: badge_tracks_slot_waitForUserResponse)
next
  case (ReceiveMessage m)
  with assms show ?thesis by (cases m) (simp_all add: badge_tracks_slot_resolvePendingRequest)
next
  case DidDispose
  with assms show ?thesis by (simp add: onDidDispose_def badge_tracks_slot_resolvePendingRequest)
next
  case (NotificationSelected sel)
  with assms show ?thesis
    by (simp add: badge_tracks_slot_def notificationSelected_def badgeState_def)
qed

lemma badge_tracks_slot_run:
  "badge_tracks_slot s \<Longrightarrow> resolved_while_idle b s es \<Longrightarrow> badge_tracks_slot (run b s es)"
proof (induction es arbitrary: s)
  case Nil
  then show ?case by (simp add: run_Nil)
next
  case (Cons e es)
  from Cons.prems have "badge_tracks_slot (step b s e)"
    by (intro badge_tracks_slot_step) simp_all
  with Cons show ?case by (simp add: run_Cons)
qed

lemma badge_tracks_slot_init: "badge_tracks_slot init"
  by (simp add: badge_tracks_slot_def init_def badgeState_def)

text \<open>
  Claim C5. In every state that a history reaches, the promises created and not yet
  resolved are exactly the one in the slot (lemmas \<open>unresolved_consistent\<close> and
  \<open>consistent_reachable\<close>), and the badge is 1 exactly while the slot is occupied as long
  as views are resolved only while the slot is empty (lemma \<open>badge_tracks_slot_run\<close>).
  The code breaks the claim on the history \<open>reattached\<close>. The disposal leaves \<open>view\<close> set,
  so the call that follows is accepted on the disposed view; when the host then resolves
  the new view the request is still in the slot and unresolved, and the view on display
  has no badge.
\<close>

theorem badge_lost_when_view_resolved_while_pending:
  "pendingRequest (run Map.empty init reattached) = Some 0
   \<and> outcome (run Map.empty init reattached) 0 = None
   \<and> badgeState (run Map.empty init reattached) = 0"
  by (simp add: reattached_def run_def init_def fresh_def resolveWebviewView_def
      waitForUserResponse_def Let_def showQuestion_def setBadge_def showNotification_def
      title_or_default_def onDidDispose_def resolvePendingRequest_def badgeState_def
      outcome_def)

section \<open>A provider without a live view\<close>

lemma handleWebviewMessage_None:
  "pendingRequest s = None \<Longrightarrow> handleWebviewMessage b m s = s"
  by (cases m) (simp_all add: resolvePendingRequest_None)

lemma no_view_without_attach:
  "\<not> list_ex attaches es \<Longrightarrow> view s = None \<Longrightarrow> pendingRequest s = None \<Longrightarrow>
     view (run b s es) = None \<and> pendingRequest (run b s es) = None"
proof (induction es arbitrary: s)
  case Nil
  then show ?case by (simp add: run_Nil)
next
  case (Cons e es)
  from Cons.prems have "view (step b s e) = None \<and> pendingRequest (step b s e) = None"
    by (cases e)
       (simp_all add: waitForUserResponse_def onDidDispose_def resolvePendingRequest_None
         notificationSelected_def handleWebviewMessage_None)
  with Cons show ?case by (simp add: run_Cons)
qed

lemma never_resolved_unavailable:
  "\<not> list_ex attaches es \<Longrightarrow>
     waitForUserResponse b q t (run b init es) = (Returned unavailable, run b init es)"
  using no_view_without_attach [of es init b]
  by (simp add: waitForUserResponse_def init_def)

text \<open>
  Claim C1. The claim holds for a provider whose view was never resolved (lemma
  \<open>never_resolved_unavailable\<close>). It fails after a disposal: the handler of
  \<open>onDidDispose\<close> resolves the pending request but leaves \<open>view\<close> set, so the next call of
  \<open>waitForUserResponse\<close> does not return the unavailable outcome. It takes the path of an
  attached view, occupies the slot with a new promise and suspends its caller on it.
\<close>

theorem ask_after_disposal_suspends:
  "fst (waitForUserResponse b q t (run b init [ResolveWebviewView v, DidDispose])) = Suspended 0
   \<and> fst (waitForUserResponse b q t (run b init [ResolveWebviewView v, DidDispose]))
       \<noteq> Returned unavailable
   \<and> pendingRequest (snd (waitForUserResponse b q t (run b init [ResolveWebviewView v, DidDispose])))
       = Some 0
   \<and> outcome (snd (waitForUserResponse b q t (run b init [ResolveWebviewView v, DidDispose]))) 0
       = None"
  by (simp add: run_def init_def resolveWebviewView_def onDidDispose_def resolvePendingRequest_def
      waitForUserResponse_def Let_def showQuestion_def setBadge_def showNotification_def
      outcome_def)

section \<open>Trimming\<close>

lemma all_dropWhile: "(\<forall>c\<in>set (dropWhile P xs). P c) \<longleftrightarrow> (\<forall>c\<in>set xs. P c)"
  by (induction xs) auto

lemma trim_empty_iff: "trim x = [] \<longleftrightarrow> list_all isWhiteSpace x"
  by (simp add: trim_def dropWhile_eq_Nil_conv all_dropWhile list_all_iff)

lemma rev_dropWhile_takeWhile:
  "rev (dropWhile P (rev y)) @ rev (takeWhile P (rev y)) = y"
proof -
  have "rev (dropWhile P (rev y)) @ rev (takeWhile P (rev y))
        = rev (takeWhile P (rev y) @ dropWhile P (rev y))"
    by (simp only: rev_append)
  also have "\<dots> = rev (rev y)" by (simp only: takeWhile_dropWhile_id)
  finally show ?thesis by simp
qed

lemma dropWhile_trim:
  "dropWhile isWhiteSpace x
     = trim x @ rev (takeWhile isWhiteSpace (rev (dropWhile isWhiteSpace x)))"
  unfolding trim_def by (rule rev_dropWhile_takeWhile [symmetric])

lemma trim_decompose:
  "x = takeWhile isWhiteSpace x @ trim x
        @ rev (takeWhile isWhiteSpace (rev (dropWhile isWhiteSpace x)))"
proof -
  have "x = takeWhile isWhiteSpace x @ dropWhile isWhiteSpace x" by simp
  with dropWhile_trim [of x] show ?thesis by metis
qed

lemma trim_surrounded:
  "\<exists>l r. x = l @ trim x @ r \<and> list_all isWhiteSpace l \<and> list_all isWhiteSpace r"
proof (intro exI conjI)
  show "x = takeWhile isWhiteSpace x @ trim x
        @ rev (takeWhile isWhiteSpace (rev (dropWhile isWhiteSpace x)))"
    by (rule trim_decompose)
  show "list_all isWhiteSpace (takeWhile isWhiteSpace x)"
    by (auto simp: list_all_iff dest: set_takeWhileD)
  show "list_all isWhiteSpace (rev (takeWhile isWhiteSpace (rev (dropWhile isWhiteSpace x))))"
    by (auto simp: list_all_iff dest: set_takeWhileD)
qed

lemma last_trim: "trim x \<noteq> [] \<Longrightarrow> \<not> isWhiteSpace (last (trim x))"
  by (simp add: trim_def last_rev hd_dropWhile)

lemma hd_trim:
  assumes "trim x \<noteq> []"
  shows "\<not> isWhiteSpace (hd (trim x))"
proof -
  let ?y = "dropWhile isWhiteSpace x"
  note y = dropWhile_trim [of x]
  have n: "?y \<noteq> []"
  proof
    assume e: "?y = []"
    have "trim x @ rev (takeWhile isWhiteSpace (rev ?y)) = ?y" by (rule y [symmetric])
    then have "trim x @ rev (takeWhile isWhiteSpace (rev ?y)) = []" by (simp only: e)
    then have "trim x = []" by (simp only: append_is_Nil_conv)
    with assms show False by (rule notE)
  qed
  from y assms have "hd ?y = hd (trim x)" by (metis hd_append2)
  with n show ?thesis using hd_dropWhile [of isWhiteSpace x] by simp
qed

section \<open>The fallback prompt, the adapter and the form\<close>

lemma askViaVSCode_dismissed:
  "selection d \<noteq> Some (respond b) \<Longrightarrow>
     askViaVSCode b q t d =
       ([ExecuteCommand ''workbench.action.focusActiveEditorGroup'',
         ShowWarningMessage (confirmationRequired b @ '': '' @ q) (respond b)],
        \<lparr>responded = False, response = ''''\<rparr>)"
  by (simp add: askViaVSCode_def Let_def)

lemma askViaVSCode_pressed:
  "selection d = Some (respond b) \<Longrightarrow>
     askViaVSCode b q t d =
       ([ExecuteCommand ''workbench.action.focusActiveEditorGroup'',
         ShowWarningMessage (confirmationRequired b @ '': '' @ q) (respond b),
         ShowInputBox t q (inputPlaceholder b)],
        (case input d of
           None \<Rightarrow> \<lparr>responded = False, response = ''''\<rparr>
         | Some x \<Rightarrow> \<lparr>responded = (0 < length (trim x)), response = x\<rparr>))"
  by (simp add: askViaVSCode_def Let_def split: option.splits)

text \<open>
  Claim C8. \<open>askViaVSCode\<close>: if the alert resolves to anything but the button, the result
  is responded false with the empty response; the text-entry prompt is opened exactly
  when the button was pressed. If the prompt is dismissed the result is again responded
  false with the empty response. If the human submits \<open>x\<close>, the response is \<open>x\<close> untrimmed
  and responded says whether the trimmed text is non-empty, that is, whether \<open>x\<close> is not
  made of white space only.
\<close>

theorem fallback_prompt_protocol:
  "(selection d \<noteq> Some (respond b) \<longrightarrow>
      snd (askViaVSCode b q t d) = \<lparr>responded = False, response = ''''\<rparr>)
   \<and> (opens_input_box (fst (askViaVSCode b q t d)) \<longleftrightarrow> selection d = Some (respond b))
   \<and> (selection d = Some (respond b) \<and> input d = None \<longrightarrow>
        snd (askViaVSCode b q t d) = \<lparr>responded = False, response = ''''\<rparr>)
   \<and> (selection d = Some (respond b) \<and> input d = Some x \<longrightarrow>
        snd (askViaVSCode b q t d) = \<lparr>responded = (0 < length (trim x)), response = x\<rparr>
        \<and> (responded (snd (askViaVSCode b q t d)) \<longleftrightarrow> \<not> list_all isWhiteSpace x))"
proof (cases "selection d = Some (respond b)")
  case True
  have "0 < length (trim x) \<longleftrightarrow> \<not> list_all isWhiteSpace x"
    using trim_empty_iff [of x] by simp
  with True show ?thesis
    by (simp add: askViaVSCode_pressed opens_input_box_def)
next
  case False
  then show ?thesis
    by (simp add: askViaVSCode_dismissed opens_input_box_def)
qed

lemma respond_empty: "respond Map.empty = ''button.respond''"
  by (simp add: respond_def localize_def lookup_def inherited_def text_of_def)

theorem fallback_prompt_protocol_witness:
  "snd (askViaVSCode Map.empty ''Q'' ''T'' \<lparr>selection = None, input = Some ''42''\<rparr>)
     = \<lparr>responded = False, response = ''''\<rparr>
   \<and> \<not> opens_input_box (fst (askViaVSCode Map.empty ''Q'' ''T'' \<lparr>selection = None, input = Some ''42''\<rparr>))
   \<and> snd (askViaVSCode Map.empty ''Q'' ''T'' \<lparr>selection = Some ''button.respond'', input = None\<rparr>)
     = \<lparr>responded = False, response = ''''\<rparr>
   \<and> snd (askViaVSCode Map.empty ''Q'' ''T'' \<lparr>selection = Some ''button.respond'', input = Some ''''\<rparr>)
     = \<lparr>responded = False, response = ''''\<rparr>
   \<and> snd (askViaVSCode Map.empty ''Q'' ''T'' \<lparr>selection = Some ''button.respond'', input = Some ''  ''\<rparr>)
     = \<lparr>responded = False, response = ''  ''\<rparr>
   \<and> snd (askViaVSCode Map.empty ''Q'' ''T'' \<lparr>selection = Some ''button.respond'', input = Some ''42''\<rparr>)
     = \<lparr>responded = True, response = ''42''\<rparr>"
proof -
  note a = fallback_prompt_protocol [of "\<lparr>selection = None, input = Some ''42''\<rparr>" Map.empty
      "''Q''" "''T''" "''42''"]
  note n = fallback_prompt_protocol [of "\<lparr>selection = Some ''button.respond'', input = None\<rparr>"
      Map.empty "''Q''" "''T''" "''42''"]
  note e = fallback_prompt_protocol [of "\<lparr>selection = Some ''button.respond'', input = Some ''''\<rparr>"
      Map.empty "''Q''" "''T''" "''''"]
  note w = fallback_prompt_protocol [of "\<lparr>selection = Some ''button.respond'', input = Some ''  ''\<rparr>"
      Map.empty "''Q''" "''T''" "''  ''"]
  note f = fallback_prompt_protocol [of "\<lparr>selection = Some ''button.respond'', input = Some ''42''\<rparr>"
      Map.empty "''Q''" "''T''" "''42''"]
  have t: "trim '''' = ''''" "trim ''  '' = ''''" "trim ''42'' = ''42''"
    by (simp_all add: trim_def isWhiteSpace_def)
  from a n e w f show ?thesis
    by (simp add: respond_empty t)
qed

lemma trim_unavailable:
  "trim ''Agent Console view is not available.'' \<noteq> []"
  by (simp add: trim_def isWhiteSpace_def)

lemma is_unavailable:
  "(\<not> responded r \<and> response r = ''Agent Console view is not available.'') \<longleftrightarrow> r = unavailable"
  by (cases r) (auto simp: unavailable_def)

lemma askViaVSCode_not_unavailable: "snd (askViaVSCode b q t d) \<noteq> unavailable"
proof (cases "selection d = Some (respond b)")
  case True
  show ?thesis
  proof (cases "input d")
    case None
    with True show ?thesis by (simp add: askViaVSCode_pressed unavailable_def)
  next
    case (Some x)
    with True trim_unavailable show ?thesis
      by (auto simp: askViaVSCode_pressed unavailable_def)
  qed
next
  case False
  then show ?thesis by (simp add: askViaVSCode_dismissed unavailable_def)
qed

lemma askViaVSCode_calls: "fst (askViaVSCode b q t d) \<noteq> []"
  by (simp add: askViaVSCode_def Let_def split: option.splits)

lemma askViaWebview_resume_eq:
  "askViaWebview_resume b q t d r = (if r = unavailable then askViaVSCode b q t d else ([], r))"
  by (simp add: askViaWebview_resume_def is_unavailable)

lemma askViaWebview_resume_unavailable:
  "snd (askViaWebview_resume b q t d r) \<noteq> unavailable"
  by (simp add: askViaWebview_resume_eq askViaVSCode_not_unavailable)

lemma askViaWebview_Returned:
  "waitForUserResponse b q (Some t) s = (Returned r, s') \<Longrightarrow>
     askViaWebview b q t d s = (Done (askViaWebview_resume b q t d r), s')"
  by (simp add: askViaWebview_def)

lemma askViaWebview_Suspended:
  "waitForUserResponse b q (Some t) s = (Suspended p, s') \<Longrightarrow>
     askViaWebview b q t d s = (Waiting p, s')"
  by (simp add: askViaWebview_def)

lemma completion_askViaWebview:
  "waitForUserResponse b q (Some t) s = (a, s') \<Longrightarrow>
     completion b q t d (fst (askViaWebview b q t d s)) s2
       = map_option (askViaWebview_resume b q t d) (answer a s2)"
  by (cases a) (simp_all add: askViaWebview_Returned askViaWebview_Suspended)

text \<open>
  Claim C3, amended. \<open>askViaWebview\<close> calls the provider and leaves it in the state in
  which that call leaves it. If the provider returns \<open>r\<close> at once, \<open>askViaWebview\<close> is done
  at once: with the fallback prompt when \<open>r\<close> is the unavailable outcome, and with \<open>r\<close> as
  it is and no host call otherwise. If the provider suspends on promise \<open>p\<close>,
  \<open>askViaWebview\<close> waits for \<open>p\<close>. Whenever the provider's answer \<open>r'\<close> is there, what
  \<open>askViaWebview\<close> returns is the fallback's result when \<open>r'\<close> is the unavailable outcome
  and \<open>r'\<close> unchanged otherwise; host dialogs are opened exactly in the first case; and
  the unavailable outcome itself, responded false with its text, is never returned.
\<close>

theorem adapter_falls_back_exactly_on_unavailable:
  "waitForUserResponse b q (Some t) s = (a, s') \<Longrightarrow>
     snd (askViaWebview b q t d s) = s'
     \<and> (a = Returned r \<longrightarrow>
          fst (askViaWebview b q t d s)
            = Done (if r = unavailable then askViaVSCode b q t d else ([], r)))
     \<and> (a = Suspended p \<longrightarrow> fst (askViaWebview b q t d s) = Waiting p)
     \<and> completion b q t d (fst (askViaWebview b q t d s)) s2
         = map_option (\<lambda>r'. if r' = unavailable then askViaVSCode b q t d else ([], r'))
             (answer a s2)
     \<and> (answer a s2 = Some r' \<longrightarrow>
          (\<exists>x. completion b q t d (fst (askViaWebview b q t d s)) s2 = Some x
                \<and> (fst x \<noteq> [] \<longleftrightarrow> r' = unavailable)))
     \<and> (completion b q t d (fst (askViaWebview b q t d s)) s2 = Some x \<longrightarrow>
          snd x \<noteq> unavailable)"
proof -
  assume w: "waitForUserResponse b q (Some t) s = (a, s')"
  have one: "snd (askViaWebview b q t d s) = s'"
    using w by (cases a) (simp_all add: askViaWebview_Returned askViaWebview_Suspended)
  have two: "a = Returned r \<longrightarrow>
          fst (askViaWebview b q t d s)
            = Done (if r = unavailable then askViaVSCode b q t d else ([], r))"
    using w by (auto simp: askViaWebview_Returned askViaWebview_resume_eq)
  have three: "a = Suspended p \<longrightarrow> fst (askViaWebview b q t d s) = Waiting p"
    using w by (auto simp: askViaWebview_Suspended)
  have c: "completion b q t d (fst (askViaWebview b q t d s)) s2
         = map_option (askViaWebview_resume b q t d) (answer a s2)"
    using w by (rule completion_askViaWebview)
  have r: "askViaWebview_resume b q t d
      = (\<lambda>r'. if r' = unavailable then askViaVSCode b q t d else ([], r'))"
    by (rule ext) (rule askViaWebview_resume_eq)
  have four: "completion b q t d (fst (askViaWebview b q t d s)) s2
         = map_option (\<lambda>r'. if r' = unavailable then askViaVSCode b q t d else ([], r'))
             (answer a s2)"
    using c by (simp only: r)
  have five: "answer a s2 = Some r' \<longrightarrow>
          (\<exists>x. completion b q t d (fst (askViaWebview b q t d s)) s2 = Some x
                \<and> (fst x \<noteq> [] \<longleftrightarrow> r' = unavailable))"
    by (simp add: four askViaVSCode_calls)
  have six: "completion b q t d (fst (askViaWebview b q t d s)) s2 = Some x \<longrightarrow>
          snd x \<noteq> unavailable"
    using askViaWebview_resume_unavailable [of b q t d] by (auto simp: c)
  from one two three four five six show ?thesis by blast
qed

lemma run_asked_by_tool:
  "run b init asked_by_tool =
     \<lparr>view = Some \<lparr>badge = Some (1, inputRequired b),
                    posted = [ShowQuestion ''Q'' ''T''], shown = [True]\<rparr>,
      pendingRequest = Some 0, promiseCount = 1, resolveCalls = [],
      notifications = [(agentRequiresInput b, openConsole b)], commands = []\<rparr>"
  by (simp add: asked_by_tool_def run_def init_def fresh_def resolveWebviewView_def
      waitForUserResponse_def Let_def showQuestion_def setBadge_def showNotification_def
      title_or_default_def)

lemma ask_by_tool:
  "waitForUserResponse b ''Q'' (Some ''T'') (run b init [ResolveWebviewView fresh])
     = (Suspended 0, run b init asked_by_tool)"
  by (simp add: asked_by_tool_def run_def init_def fresh_def resolveWebviewView_def
      waitForUserResponse_def Let_def showQuestion_def setBadge_def showNotification_def
      title_or_default_def)

lemma outcome_after_asked_by_tool:
  "outcome (run b init (asked_by_tool @ [ReceiveMessage (Submit x)])) 0
     = Some \<lparr>responded = True, response = x\<rparr>"
  "outcome (run b init (asked_by_tool @ [ReceiveMessage Cancel])) 0
     = Some \<lparr>responded = False, response = ''''\<rparr>"
  "outcome (run b init (asked_by_tool @ [DidDispose])) 0 = Some closed"
  "outcome (run b init asked_by_tool) 0 = None"
  by (simp_all add: run_append run_Cons run_Nil run_asked_by_tool resolvePendingRequest_def
      onDidDispose_def setBadge_def outcome_def closed_def)

theorem adapter_falls_back_exactly_on_unavailable_witness:
  "askViaWebview Map.empty ''Q'' ''T'' nobody init
     = (Done (askViaVSCode Map.empty ''Q'' ''T'' nobody), init)
   \<and> askViaWebview Map.empty ''Q'' ''T'' nobody (run Map.empty init asked)
       = (Done ([], busy), run Map.empty init asked)
   \<and> askViaWebview Map.empty ''Q'' ''T'' nobody (run Map.empty init [ResolveWebviewView fresh])
       = (Waiting 0, run Map.empty init asked_by_tool)
   \<and> completion Map.empty ''Q'' ''T'' nobody (Waiting 0) (run Map.empty init asked_by_tool) = None
   \<and> completion Map.empty ''Q'' ''T'' nobody (Waiting 0)
        (run Map.empty init (asked_by_tool @ [ReceiveMessage (Submit ''hi'')]))
       = Some ([], \<lparr>responded = True, response = ''hi''\<rparr>)
   \<and> completion Map.empty ''Q'' ''T'' nobody (Waiting 0)
        (run Map.empty init (asked_by_tool @ [ReceiveMessage Cancel]))
       = Some ([], \<lparr>responded = False, response = ''''\<rparr>)
   \<and> completion Map.empty ''Q'' ''T'' nobody (Waiting 0)
        (run Map.empty init (asked_by_tool @ [DidDispose]))
       = Some ([], closed)"
proof -
  have u: "waitForUserResponse Map.empty ''Q'' (Some ''T'') init = (Returned unavailable, init)"
    by (simp add: waitForUserResponse_def init_def)
  have y: "waitForUserResponse Map.empty ''Q'' (Some ''T'') (run Map.empty init asked)
      = (Returned busy, run Map.empty init asked)"
    by (simp add: waitForUserResponse_def run_asked)
  note w = ask_by_tool [of Map.empty]
  note tu = adapter_falls_back_exactly_on_unavailable [OF u, of nobody unavailable 0 init]
  note ty = adapter_falls_back_exactly_on_unavailable [OF y, of nobody busy 0 init]
  note t0 = adapter_falls_back_exactly_on_unavailable
    [OF w, of nobody busy 0 "run Map.empty init asked_by_tool"]
  note t1 = adapter_falls_back_exactly_on_unavailable
    [OF w, of nobody busy 0 "run Map.empty init (asked_by_tool @ [ReceiveMessage (Submit ''hi'')])"]
  note t2 = adapter_falls_back_exactly_on_unavailable
    [OF w, of nobody busy 0 "run Map.empty init (asked_by_tool @ [ReceiveMessage Cancel])"]
  note t3 = adapter_falls_back_exactly_on_unavailable
    [OF w, of nobody busy 0 "run Map.empty init (asked_by_tool @ [DidDispose])"]
  have n: "busy \<noteq> unavailable" "closed \<noteq> unavailable"
    "\<lparr>responded = True, response = ''hi''\<rparr> \<noteq> unavailable"
    "\<lparr>responded = False, response = ''''\<rparr> \<noteq> unavailable"
    by (simp_all add: busy_def closed_def unavailable_def)
  from tu have a: "askViaWebview Map.empty ''Q'' ''T'' nobody init
     = (Done (askViaVSCode Map.empty ''Q'' ''T'' nobody), init)"
    by (simp add: prod_eq_iff)
  from ty n have b: "askViaWebview Map.empty ''Q'' ''T'' nobody (run Map.empty init asked)
       = (Done ([], busy), run Map.empty init asked)"
    by (simp add: prod_eq_iff)
  from t0 have c: "askViaWebview Map.empty ''Q'' ''T'' nobody
        (run Map.empty init [ResolveWebviewView fresh])
       = (Waiting 0, run Map.empty init asked_by_tool)"
    by (simp add: prod_eq_iff)
  from t0 c have d: "completion Map.empty ''Q'' ''T'' nobody (Waiting 0)
      (run Map.empty init asked_by_tool) = None"
    by (simp add: outcome_after_asked_by_tool)
  from t1 c n have e: "completion Map.empty ''Q'' ''T'' nobody (Waiting 0)
        (run Map.empty init (asked_by_tool @ [ReceiveMessage (Submit ''hi'')]))
       = Some ([], \<lparr>responded = True, response = ''hi''\<rparr>)"
    by (simp add: outcome_after_asked_by_tool)
  from t2 c n have f: "completion Map.empty ''Q'' ''T'' nobody (Waiting 0)
        (run Map.empty init (asked_by_tool @ [ReceiveMessage Cancel]))
       = Some ([], \<lparr>responded = False, response = ''''\<rparr>)"
    by (simp add: outcome_after_asked_by_tool)
  from t3 c n have g: "completion Map.empty ''Q'' ''T'' nobody (Waiting 0)
        (run Map.empty init (asked_by_tool @ [DidDispose]))
       = Some ([], closed)"
    by (simp add: outcome_after_asked_by_tool)
  from a b c d e f g show ?thesis by simp
qed

text \<open>
  The claim as it was stated fails in its last clause. The text of the unavailable
  outcome does reach the agent when the human enters it, in the form of the webview or
  in the fallback's prompt: it comes back with responded true.
\<close>

theorem unavailable_text_reaches_the_agent:
  "fst (askViaWebview Map.empty ''Q'' ''T'' nobody (run Map.empty init [ResolveWebviewView fresh]))
     = Waiting 0
   \<and> completion Map.empty ''Q'' ''T'' nobody (Waiting 0)
        (run Map.empty init
          (asked_by_tool @ [ReceiveMessage (Submit ''Agent Console view is not available.'')]))
       = Some ([], \<lparr>responded = True, response = ''Agent Console view is not available.''\<rparr>)
   \<and> fst (askViaWebview Map.empty ''Q'' ''T'' parrot init)
       = Done ([ExecuteCommand ''workbench.action.focusActiveEditorGroup'',
                ShowWarningMessage ''notification.confirmationRequired: Q'' ''button.respond'',
                ShowInputBox ''T'' ''Q'' ''input.placeholder''],
               \<lparr>responded = True, response = ''Agent Console view is not available.''\<rparr>)"
proof -
  have a: "askViaWebview Map.empty ''Q'' ''T'' nobody (run Map.empty init [ResolveWebviewView fresh])
      = (Waiting 0, run Map.empty init asked_by_tool)"
    using ask_by_tool [of Map.empty] by (rule askViaWebview_Suspended)
  have b: "completion Map.empty ''Q'' ''T'' nobody (Waiting 0)
        (run Map.empty init
          (asked_by_tool @ [ReceiveMessage (Submit ''Agent Console view is not available.'')]))
       = Some ([], \<lparr>responded = True, response = ''Agent Console view is not available.''\<rparr>)"
    by (simp add: outcome_after_asked_by_tool askViaWebview_resume_def)
  have g: "confirmationRequired Map.empty = ''notification.confirmationRequired''"
    "inputPlaceholder Map.empty = ''input.placeholder''"
    by (simp_all add: confirmationRequired_def inputPlaceholder_def localize_def lookup_def
        inherited_def text_of_def)
  have t: "trim ''Agent Console view is not available.''
      = ''Agent Console view is not available.''"
    by (simp add: trim_def isWhiteSpace_def)
  have c: "fst (askViaWebview Map.empty ''Q'' ''T'' parrot init)
       = Done ([ExecuteCommand ''workbench.action.focusActiveEditorGroup'',
                ShowWarningMessage ''notification.confirmationRequired: Q'' ''button.respond'',
                ShowInputBox ''T'' ''Q'' ''input.placeholder''],
               \<lparr>responded = True, response = ''Agent Console view is not available.''\<rparr>)"
    by (simp add: askViaWebview_def waitForUserResponse_def init_def askViaWebview_resume_def
        askViaVSCode_def parrot_def respond_empty g t Let_def unavailable_def)
  from a b c show ?thesis by simp
qed

text \<open>
  Claim C10. \<open>handleSubmit\<close> posts one submit message. Its payload is the trimmed content
  \<open>v\<close> of the textarea: \<open>v\<close> is the payload with white space before and after it, the
  payload neither starts nor ends with white space, and it is empty exactly when \<open>v\<close> is
  empty or white space only. Without a textarea the payload is empty.
\<close>

theorem submit_posts_trimmed_text:
  "(responseInput d = None \<longrightarrow> postMessage (handleSubmit d) = postMessage d @ [Submit ''''])
   \<and> (responseInput d = Some v \<longrightarrow>
        postMessage (handleSubmit d) = postMessage d @ [Submit (trim v)]
        \<and> (\<exists>l r. v = l @ trim v @ r \<and> list_all isWhiteSpace l \<and> list_all isWhiteSpace r)
        \<and> (trim v \<noteq> [] \<longrightarrow>
             \<not> isWhiteSpace (hd (trim v)) \<and> \<not> isWhiteSpace (last (trim v)))
        \<and> (trim v = [] \<longleftrightarrow> list_all isWhiteSpace v))"
proof -
  have p: "responseInput d = Some v \<longrightarrow>
      postMessage (handleSubmit d) = postMessage d @ [Submit (trim v)]"
    by (simp add: handleSubmit_def clearForm_def Let_def)
  have n: "responseInput d = None \<longrightarrow> postMessage (handleSubmit d) = postMessage d @ [Submit '''']"
    by (simp add: handleSubmit_def clearForm_def Let_def)
  from p n trim_surrounded [of v] hd_trim [of v] last_trim [of v] trim_empty_iff [of v]
  show ?thesis by blast
qed

theorem submit_posts_trimmed_text_witness:
  "postMessage (handleSubmit (form ''  hi  '')) = [Submit ''hi'']
   \<and> postMessage (handleSubmit (form ''   '')) = [Submit '''']
   \<and> postMessage (handleSubmit (form '''')) = [Submit '''']"
proof -
  have t: "trim ''  hi  '' = ''hi''" "trim ''   '' = ''''" "trim '''' = ''''"
    by (simp_all add: trim_def isWhiteSpace_def)
  from submit_posts_trimmed_text [of "form ''  hi  ''" "''  hi  ''"]
    submit_posts_trimmed_text [of "form ''   ''" "''   ''"]
    submit_posts_trimmed_text [of "form ''''" "''''"]
  show ?thesis by (simp add: form_def t)
qed

text \<open>
  Claim C7. A textarea holding white space only is submitted with the empty payload, and
  the provider resolves the pending request with responded true and the empty response.
  The fallback prompt answers the same input with responded false.
\<close>

theorem empty_submission_counts_as_responded:
  "postMessage (handleSubmit (form ''   '')) = [Submit '''']
   \<and> outcome (run Map.empty init (asked @ [ReceiveMessage (Submit '''')])) 0
       = Some \<lparr>responded = True, response = ''''\<rparr>
   \<and> snd (askViaVSCode Map.empty ''Q'' ''T''
        \<lparr>selection = Some ''button.respond'', input = Some ''   ''\<rparr>)
       = \<lparr>responded = False, response = ''   ''\<rparr>"
proof -
  have t: "trim ''   '' = ''''" by (simp add: trim_def isWhiteSpace_def)
  have "outcome (run Map.empty init (asked @ [ReceiveMessage (Submit '''')])) 0
       = Some \<lparr>responded = True, response = ''''\<rparr>"
    by (simp add: run_append run_Cons run_Nil run_asked resolvePendingRequest_def setBadge_def
        outcome_def)
  then show ?thesis
    by (simp add: form_def handleSubmit_def clearForm_def Let_def t askViaVSCode_def respond_empty)
qed

section \<open>Placeholders\<close>

lemma take_eq_iff_prefix: "take (length p) s = p \<longleftrightarrow> (\<exists>v. s = p @ v)"
proof
  assume "take (length p) s = p"
  then have "s = p @ drop (length p) s" by (metis append_take_drop_id)
  then show "\<exists>v. s = p @ v" ..
next
  assume "\<exists>v. s = p @ v"
  then show "take (length p) s = p" by auto
qed

lemma indexOf_None_iff: "indexOf s p = None \<longleftrightarrow> (\<nexists>u v. s = u @ p @ v)"
proof (induction s)
  case Nil
  then show ?case by auto
next
  case (Cons c r)
  show ?case
  proof (cases "take (length p) (c # r) = p")
    case True
    then obtain v where "c # r = p @ v" unfolding take_eq_iff_prefix ..
    then have "c # r = [] @ p @ v" by simp
    then have "\<exists>u v. c # r = u @ p @ v" by blast
    with True show ?thesis by simp
  next
    case False
    have "(\<exists>u v. c # r = u @ p @ v) \<longleftrightarrow> (\<exists>u v. r = u @ p @ v)"
    proof
      assume "\<exists>u v. c # r = u @ p @ v"
      then obtain u v where e: "c # r = u @ p @ v" by blast
      show "\<exists>u v. r = u @ p @ v"
      proof (cases u)
        case Nil
        with e have "\<exists>v. c # r = p @ v" by auto
        with False show ?thesis unfolding take_eq_iff_prefix by blast
      next
        case (Cons d u')
        with e have "r = u' @ p @ v" by simp
        then show ?thesis by blast
      qed
    next
      assume "\<exists>u v. r = u @ p @ v"
      then obtain u v where "r = u @ p @ v" by blast
      then have "c # r = (c # u) @ p @ v" by simp
      then show "\<exists>u v. c # r = u @ p @ v" by blast
    qed
    with False Cons show ?thesis by simp
  qed
qed

lemma indexOf_Some:
  "indexOf s p = Some k \<Longrightarrow> k \<le> length s \<and> s = take k s @ p @ drop (k + length p) s"
proof (induction s arbitrary: k)
  case Nil
  then show ?case by (auto split: if_splits)
next
  case (Cons c r)
  show ?case
  proof (cases "take (length p) (c # r) = p")
    case True
    with Cons.prems have k: "k = 0" by simp
    from True have "c # r = p @ drop (length p) (c # r)" by (metis append_take_drop_id)
    with k show ?thesis by simp
  next
    case False
    with Cons.prems obtain j where j: "indexOf r p = Some j" and k: "k = Suc j" by auto
    from Cons.IH [OF j] k show ?thesis by simp
  qed
qed

lemma indexOf_least:
  "indexOf s p = Some k \<Longrightarrow> s = u @ p @ v \<Longrightarrow> k \<le> length u"
proof (induction s arbitrary: k u)
  case Nil
  then show ?case by (auto split: if_splits)
next
  case (Cons c r)
  show ?case
  proof (cases "take (length p) (c # r) = p")
    case True
    with Cons.prems(1) have "k = 0" by simp
    then show ?thesis by simp
  next
    case False
    with Cons.prems(1) obtain j where j: "indexOf r p = Some j" and k: "k = Suc j" by auto
    show ?thesis
    proof (cases u)
      case Nil
      with Cons.prems(2) have "\<exists>v. c # r = p @ v" by auto
      with False show ?thesis unfolding take_eq_iff_prefix by blast
    next
      case (Cons d u')
      with Cons.prems(2) have "r = u' @ p @ v" by simp
      from Cons.IH [OF j this] k \<open>u = d # u'\<close> show ?thesis by simp
    qed
  qed
qed

lemma indexOf_first:
  assumes "\<forall>u' v'. u @ p @ v = u' @ p @ v' \<longrightarrow> length u \<le> length u'"
  shows "indexOf (u @ p @ v) p = Some (length u)"
proof -
  define s where "s = u @ p @ v"
  have "\<exists>u v. s = u @ p @ v" unfolding s_def by blast
  then have "indexOf s p \<noteq> None" unfolding indexOf_None_iff by simp
  then obtain k where k: "indexOf s p = Some k" by auto
  from indexOf_least [OF k s_def] have le: "k \<le> length u" .
  from indexOf_Some [OF k]
  have d: "s = take k s @ p @ drop (k + length p) s" and kl: "k \<le> length s" by simp_all
  from assms have "\<And>u' v'. s = u' @ p @ v' \<Longrightarrow> length u \<le> length u'"
    unfolding s_def by blast
  from this [OF d] kl have "length u \<le> k" by simp
  with le have "k = length u" by simp
  with k show ?thesis unfolding s_def by simp
qed

lemma getSubstitution_plain:
  "CHR ''$'' \<notin> set r \<Longrightarrow> getSubstitution m x y r = r"
  by (induction m x y r rule: getSubstitution.induct) auto

lemma replace_absent: "(\<nexists>u v. s = u @ p @ v) \<Longrightarrow> replace s p r = s"
  using indexOf_None_iff [of s p] by (simp add: replace_def)

lemma replace_first:
  assumes "\<forall>u' v'. u @ p @ v = u' @ p @ v' \<longrightarrow> length u \<le> length u'"
    and "CHR ''$'' \<notin> set r"
  shows "replace (u @ p @ v) p r = u @ r @ v"
  using indexOf_first [OF assms(1)] assms(2)
  by (simp add: replace_def getSubstitution_plain)

lemma matches_at_iff: "matches_at s p k \<longleftrightarrow> (\<exists>u v. s = u @ p @ v \<and> length u = k)"
proof
  assume m: "matches_at s p k"
  then have "drop k s = p @ drop (length p) (drop k s)"
    unfolding matches_at_def by (metis append_take_drop_id)
  then have "take k s @ drop k s = take k s @ p @ drop (length p) (drop k s)" by simp
  then have "s = take k s @ p @ drop (length p) (drop k s)" by simp
  moreover from m have "length (take k s) = k" by (simp add: matches_at_def)
  ultimately show "\<exists>u v. s = u @ p @ v \<and> length u = k" by blast
next
  assume "\<exists>u v. s = u @ p @ v \<and> length u = k"
  then show "matches_at s p k" by (auto simp: matches_at_def)
qed

lemma occurs_iff: "occurs p s \<longleftrightarrow> (\<exists>u v. s = u @ p @ v)"
proof
  assume "occurs p s"
  then obtain k where "matches_at s p k" by (auto simp: occurs_def list_ex_iff)
  then show "\<exists>u v. s = u @ p @ v" unfolding matches_at_iff by blast
next
  assume "\<exists>u v. s = u @ p @ v"
  then obtain u v where s: "s = u @ p @ v" by blast
  then have "matches_at s p (length u)" unfolding matches_at_iff by blast
  moreover from s have "length u \<in> set [0..<Suc (length s)]" by simp
  ultimately show "occurs p s" unfolding occurs_def list_ex_iff by blast
qed

lemma first_at_first:
  assumes "first_at s p k"
  shows "\<exists>u v. s = u @ p @ v \<and> length u = k
           \<and> (\<forall>u' v'. u @ p @ v = u' @ p @ v' \<longrightarrow> length u \<le> length u')"
proof -
  from assms obtain u v where s: "s = u @ p @ v" and k: "length u = k"
    unfolding first_at_def matches_at_iff by blast
  have "length u \<le> length u'" if "u @ p @ v = u' @ p @ v'" for u' v'
  proof (rule ccontr)
    assume "\<not> length u \<le> length u'"
    with k have "length u' < k" by simp
    moreover from that s have "matches_at s p (length u')" unfolding matches_at_iff by blast
    ultimately have "list_ex (matches_at s p) [0..<k]" unfolding list_ex_iff by auto
    with assms show False by (simp add: first_at_def)
  qed
  with s k show ?thesis by blast
qed

lemma first_at_indexOf: "first_at s p k \<Longrightarrow> indexOf s p = Some k"
proof -
  assume "first_at s p k"
  from first_at_first [OF this] obtain u v where s: "s = u @ p @ v" and k: "length u = k"
    and f: "\<forall>u' v'. u @ p @ v = u' @ p @ v' \<longrightarrow> length u \<le> length u'" by blast
  from indexOf_first [OF f] s k show ?thesis by simp
qed

lemma indexOf_first_at: "indexOf s p = Some k \<Longrightarrow> first_at s p k"
proof -
  assume i: "indexOf s p = Some k"
  from indexOf_Some [OF i] have m: "matches_at s p k"
    unfolding matches_at_iff by (metis length_take min.absorb2)
  have "\<not> list_ex (matches_at s p) [0..<k]"
  proof
    assume "list_ex (matches_at s p) [0..<k]"
    then obtain j where j: "j < k" and "matches_at s p j" by (auto simp: list_ex_iff)
    then obtain u v where "s = u @ p @ v" and "length u = j" unfolding matches_at_iff by blast
    with indexOf_least [OF i] j show False by fastforce
  qed
  with m show ?thesis by (simp add: first_at_def)
qed

lemma occurs_first_at: "occurs p s \<Longrightarrow> \<exists>k. first_at s p k"
proof -
  assume "occurs p s"
  then have "indexOf s p \<noteq> None" unfolding occurs_iff indexOf_None_iff by simp
  then obtain k where "indexOf s p = Some k" by auto
  then have "first_at s p k" by (rule indexOf_first_at)
  then show ?thesis ..
qed

lemma replace_first_at:
  "first_at s p k \<Longrightarrow>
     replace s p r
       = take k s @ getSubstitution p (take k s) (drop (k + length p) s) r
         @ drop (k + length p) s"
  by (simp add: replace_def first_at_indexOf)

lemma replace_not_occurs: "\<not> occurs p s \<Longrightarrow> replace s p r = s"
  by (simp add: replace_absent occurs_iff)

lemma forEach_replace_Text_snoc:
  "forEach_replace f (Text m) i as = Inr (Text m') \<Longrightarrow>
     forEach_replace f (Text m) i (as @ [a])
       = Inr (Text (replace m' (placeholder (i + length as)) (String f a)))"
  by (induction as arbitrary: m i) simp_all

lemma forEach_replace_Inherited:
  "forEach_replace f (Inherited n) i (as @ [a]) = Inl TypeError"
  by (cases as) simp_all

lemma forEach_replace_Inherited_result:
  "forEach_replace f (Inherited n) i as \<noteq> Inr (Text m)"
  by (cases as) simp_all

lemma localize_snoc:
  assumes "localize f b key args = Inr (Text m)"
  shows "localize f b key (args @ [a])
           = Inr (Text (replace m (placeholder (length args)) (String f a)))"
proof (cases "lookup b key")
  case (Text m0)
  with assms forEach_replace_Text_snoc [of f m0 0 args m a] show ?thesis
    by (simp add: localize_def)
next
  case (Inherited n)
  with assms forEach_replace_Inherited_result [of f n 0 args m] show ?thesis
    by (simp add: localize_def)
qed

lemma getter_text:
  "key \<notin> set inherited \<Longrightarrow>
     text_of (localize f b key [])
       = (case b key of None \<Rightarrow> key | Some m \<Rightarrow> if m = [] then key else m)"
  by (simp add: text_of_def localize_def lookup_def split: option.splits)

lemma getters_text:
  "confirmationRequired b = (case b ''notification.confirmationRequired'' of
      None \<Rightarrow> ''notification.confirmationRequired''
    | Some m \<Rightarrow> if m = [] then ''notification.confirmationRequired'' else m)"
  "agentRequiresInput b = (case b ''notification.agentRequiresInput'' of
      None \<Rightarrow> ''notification.agentRequiresInput''
    | Some m \<Rightarrow> if m = [] then ''notification.agentRequiresInput'' else m)"
  "openConsole b = (case b ''notification.openConsole'' of
      None \<Rightarrow> ''notification.openConsole''
    | Some m \<Rightarrow> if m = [] then ''notification.openConsole'' else m)"
  "respond b = (case b ''button.respond'' of
      None \<Rightarrow> ''button.respond''
    | Some m \<Rightarrow> if m = [] then ''button.respond'' else m)"
  "inputPlaceholder b = (case b ''input.placeholder'' of
      None \<Rightarrow> ''input.placeholder''
    | Some m \<Rightarrow> if m = [] then ''input.placeholder'' else m)"
  "inputRequired b = (case b ''badge.inputRequired'' of
      None \<Rightarrow> ''badge.inputRequired''
    | Some m \<Rightarrow> if m = [] then ''badge.inputRequired'' else m)"
  by (simp_all add: confirmationRequired_def agentRequiresInput_def openConsole_def respond_def
      inputPlaceholder_def inputRequired_def getter_text inherited_def)

text \<open>
  Claim C9, amended. Without arguments \<open>localize\<close> returns the bundle's own text for the
  key; the key itself when that text is empty, or missing under a key that is not an
  inherited name; and for a missing key that is an inherited name the inherited
  property, which is not a string, and then any argument makes the call throw. On a
  text \<open>m\<close> built from the arguments so far, the next argument acts through its
  placeholder: where the placeholder does not occur, \<open>m\<close> stays as it is; where it occurs
  it has a first position, and this occurrence, and only this one, is replaced by the
  replacement text that the string form of the argument stands for, which is the string
  form itself when that has no dollar sign.
\<close>

theorem localize_replaces_first_occurrence:
  "(b key = Some m0 \<longrightarrow> localize f b key [] = Inr (Text (if m0 = [] then key else m0)))
   \<and> (b key = None \<and> key \<notin> set inherited \<longrightarrow> localize f b key [] = Inr (Text key))
   \<and> (b key = None \<and> key \<in> set inherited \<longrightarrow>
        localize f b key [] = Inr (Inherited key)
        \<and> localize f b key (args @ [a]) = Inl TypeError)
   \<and> (localize f b key args = Inr (Text m) \<and> \<not> occurs (placeholder (length args)) m \<longrightarrow>
        localize f b key (args @ [a]) = Inr (Text m))
   \<and> (localize f b key args = Inr (Text m) \<and> first_at m (placeholder (length args)) k \<longrightarrow>
        localize f b key (args @ [a])
          = Inr (Text (take k m
              @ getSubstitution (placeholder (length args)) (take k m)
                  (drop (k + length (placeholder (length args))) m) (String f a)
              @ drop (k + length (placeholder (length args))) m)))
   \<and> (occurs (placeholder (length args)) m \<longrightarrow> (\<exists>j. first_at m (placeholder (length args)) j))
   \<and> (CHR ''$'' \<notin> set (String f a) \<longrightarrow> getSubstitution x y z (String f a) = String f a)"
proof (intro conjI impI)
  show "localize f b key [] = Inr (Text (if m0 = [] then key else m0))" if "b key = Some m0"
    using that by (simp add: localize_def lookup_def)
  show "localize f b key [] = Inr (Text key)" if "b key = None \<and> key \<notin> set inherited"
    using that by (simp add: localize_def lookup_def)
  show "localize f b key [] = Inr (Inherited key)" if "b key = None \<and> key \<in> set inherited"
    using that by (simp add: localize_def lookup_def)
  show "localize f b key (args @ [a]) = Inl TypeError" if "b key = None \<and> key \<in> set inherited"
    using that by (simp add: localize_def lookup_def forEach_replace_Inherited)
  show "localize f b key (args @ [a]) = Inr (Text m)"
    if "localize f b key args = Inr (Text m) \<and> \<not> occurs (placeholder (length args)) m"
    using that by (simp add: localize_snoc replace_not_occurs)
  show "localize f b key (args @ [a])
          = Inr (Text (take k m
              @ getSubstitution (placeholder (length args)) (take k m)
                  (drop (k + length (placeholder (length args))) m) (String f a)
              @ drop (k + length (placeholder (length args))) m))"
    if "localize f b key args = Inr (Text m) \<and> first_at m (placeholder (length args)) k"
    using that by (simp add: localize_snoc replace_first_at)
  show "\<exists>j. first_at m (placeholder (length args)) j" if "occurs (placeholder (length args)) m"
    using that by (rule occurs_first_at)
  show "getSubstitution x y z (String f a) = String f a" if "CHR ''$'' \<notin> set (String f a)"
    using that by (rule getSubstitution_plain)
qed

theorem localize_replaces_first_occurrence_witness:
  "localize decimal greeting ''greet'' [] = Inr (Text ''Hello {0}, you are {1}'')
   \<and> localize decimal greeting ''greet'' [Str ''Ann''] = Inr (Text ''Hello Ann, you are {1}'')
   \<and> localize decimal greeting ''greet'' [Str ''Ann'', Num 30]
       = Inr (Text ''Hello Ann, you are 30'')
   \<and> localize decimal greeting ''missing'' [Str ''Ann''] = Inr (Text ''missing'')
   \<and> localize decimal greeting ''valueOf'' [] = Inr (Inherited ''valueOf'')
   \<and> localize decimal greeting ''valueOf'' [Str ''Ann''] = Inl TypeError
   \<and> localize decimal priced ''k'' [Str ''$$5''] = Inr (Text ''a$5b'')"
proof -
  note t0 = localize_replaces_first_occurrence
    [of greeting "''greet''" "''Hello {0}, you are {1}''" decimal "[]" "Str ''Ann''"
        "''Hello {0}, you are {1}''" 6]
  note t1 = localize_replaces_first_occurrence
    [of greeting "''greet''" "''Hello {0}, you are {1}''" decimal "[Str ''Ann'']" "Num 30"
        "''Hello Ann, you are {1}''" 19]
  note t2 = localize_replaces_first_occurrence
    [of greeting "''missing''" "''''" decimal "[]" "Str ''Ann''" "''missing''" 0]
  note t3 = localize_replaces_first_occurrence
    [of greeting "''valueOf''" "''''" decimal "[]" "Str ''Ann''" "''''" 0]
  note t4 = localize_replaces_first_occurrence
    [of priced "''k''" "''a{0}b''" decimal "[]" "Str ''$$5''" "''a{0}b''" 1]
  have g: "greeting ''greet'' = Some ''Hello {0}, you are {1}''"
    "greeting ''missing'' = None" "greeting ''valueOf'' = None" "priced ''k'' = Some ''a{0}b''"
    by (simp_all add: greeting_def priced_def)
  have i: "''missing'' \<notin> set inherited" "''valueOf'' \<in> set inherited"
    by (simp_all add: inherited_def)
  from t0 g have a: "localize decimal greeting ''greet'' [] = Inr (Text ''Hello {0}, you are {1}'')"
    by simp
  have h0: "first_at ''Hello {0}, you are {1}'' (placeholder (length ([] :: nat arg list))) 6"
    by code_simp
  have e0: "take 6 ''Hello {0}, you are {1}''
      @ getSubstitution (placeholder (length ([] :: nat arg list))) (take 6 ''Hello {0}, you are {1}'')
          (drop (6 + length (placeholder (length ([] :: nat arg list)))) ''Hello {0}, you are {1}'')
          (String decimal (Str ''Ann''))
      @ drop (6 + length (placeholder (length ([] :: nat arg list)))) ''Hello {0}, you are {1}''
      = ''Hello Ann, you are {1}''"
    by code_simp
  from t0 a h0 e0
  have b: "localize decimal greeting ''greet'' ([] @ [Str ''Ann'']) = Inr (Text ''Hello Ann, you are {1}'')"
    by simp
  have h1: "first_at ''Hello Ann, you are {1}'' (placeholder (length [Str ''Ann'' :: nat arg])) 19"
    by code_simp
  have e1: "take 19 ''Hello Ann, you are {1}''
      @ getSubstitution (placeholder (length [Str ''Ann'' :: nat arg])) (take 19 ''Hello Ann, you are {1}'')
          (drop (19 + length (placeholder (length [Str ''Ann'' :: nat arg]))) ''Hello Ann, you are {1}'')
          (String decimal (Num 30))
      @ drop (19 + length (placeholder (length [Str ''Ann'' :: nat arg]))) ''Hello Ann, you are {1}''
      = ''Hello Ann, you are 30''"
    by code_simp
  from b have b': "localize decimal greeting ''greet'' [Str ''Ann''] = Inr (Text ''Hello Ann, you are {1}'')"
    by simp
  from t1 b' h1 e1
  have c: "localize decimal greeting ''greet'' ([Str ''Ann''] @ [Num 30])
      = Inr (Text ''Hello Ann, you are 30'')"
    by simp
  from t2 g i have m: "localize decimal greeting ''missing'' [] = Inr (Text ''missing'')"
    by simp
  have h2: "\<not> occurs (placeholder (length ([] :: nat arg list))) ''missing''"
    by code_simp
  from t2 m h2 have d: "localize decimal greeting ''missing'' ([] @ [Str ''Ann'']) = Inr (Text ''missing'')"
    by simp
  from t3 g i have e: "localize decimal greeting ''valueOf'' [] = Inr (Inherited ''valueOf'')"
    and f: "localize decimal greeting ''valueOf'' ([] @ [Str ''Ann'']) = Inl TypeError"
    by simp_all
  from t4 g have p: "localize decimal priced ''k'' [] = Inr (Text ''a{0}b'')" by simp
  have h4: "first_at ''a{0}b'' (placeholder (length ([] :: nat arg list))) 1"
    by code_simp
  have e4: "take 1 ''a{0}b''
      @ getSubstitution (placeholder (length ([] :: nat arg list))) (take 1 ''a{0}b'')
          (drop (1 + length (placeholder (length ([] :: nat arg list)))) ''a{0}b'')
          (String decimal (Str ''$$5''))
      @ drop (1 + length (placeholder (length ([] :: nat arg list)))) ''a{0}b''
      = ''a$5b''"
    by code_simp
  from t4 p h4 e4 have q: "localize decimal priced ''k'' ([] @ [Str ''$$5'']) = Inr (Text ''a$5b'')"
    by simp
  from a b c d e f q show ?thesis by simp
qed

text \<open>
  The claim as it was stated fails for a text with a repeated placeholder, whose second
  occurrence stays; for an argument with a dollar pattern, which is not inserted as it
  is; for a key without an entry that contains a placeholder, which is not returned as
  it is; and for a key that names an inherited property, where the result is not a
  string or the call throws.
\<close>

theorem localize_leaves_second_occurrence:
  "localize decimal twice ''k'' [Str ''a''] = Inr (Text ''a{0}'')
   \<and> localize decimal priced ''k'' [Str ''$&''] = Inr (Text ''a{0}b'')
   \<and> twice ''{0}'' = None
   \<and> localize decimal twice ''{0}'' [Str ''a''] = Inr (Text ''a'')
   \<and> twice ''toString'' = None
   \<and> localize decimal twice ''toString'' [] = Inr (Inherited ''toString'')
   \<and> localize decimal twice ''toString'' [Str ''a''] = Inl TypeError"
  by code_simp

end
